theory Spec2Isabelle
  imports Main
begin

section \<open>The real-time channel session of the dashboard (WebSocketContext.tsx)\<close>

text \<open>
  The provider component \<open>WebSocketProvider\<close> owns one socket reference, a reconnect
  counter, two timer references, a manual-disconnect flag, the React state \<open>status\<close> and
  the React state \<open>subscriptions\<close>. Its functions are embedded below as functions on a
  record of that state. Everything the browser does for the component (creating sockets,
  keeping timers, delivering events) is part of the record too, so that the handlers the
  component installs can be run on it.
\<close>

subsection \<open>Data model\<close>

datatype WebSocketStatus = connecting | connected | disconnecting | disconnected | error

datatype WebSocketChannel =
  transactions | prices | security | user_activity | system | notifications

text \<open>A channel is a string at run time; \<open>channel_name\<close> gives the string of each member.\<close>

fun channel_name :: "WebSocketChannel \<Rightarrow> string" where
  "channel_name transactions = ''transactions''"
| "channel_name prices = ''prices''"
| "channel_name security = ''security''"
| "channel_name user_activity = ''user_activity''"
| "channel_name system = ''system''"
| "channel_name notifications = ''notifications''"

text \<open>
  JavaScript values as far as the message handler looks at them: what \<open>JSON.parse\<close> can
  return, and \<open>undefined\<close> for a property that is absent. Numbers are integers here; the
  handler only ever tests a number for being zero (truthiness of \<open>message.channel\<close>).
\<close>

datatype jsvalue =
  JUndefined
| JNull
| JBool bool
| JNum int
| JStr string
| JArr "jsvalue list"
| JObj "(string \<times> jsvalue) list"

text \<open>
  Reading a property, for a value that is neither \<open>null\<close> nor \<open>undefined\<close> (reading a
  property of those throws a TypeError, which the handler below treats before it calls
  \<open>get_prop\<close>). Only objects carry the properties \<open>type\<close>, \<open>channel\<close> and \<open>data\<close>.
\<close>

fun get_prop :: "jsvalue \<Rightarrow> string \<Rightarrow> jsvalue" where
  "get_prop (JObj fields) k = (case map_of fields k of Some v \<Rightarrow> v | None \<Rightarrow> JUndefined)"
| "get_prop _ k = JUndefined"

fun truthy :: "jsvalue \<Rightarrow> bool" where
  "truthy JUndefined = False"
| "truthy JNull = False"
| "truthy (JBool b) = b"
| "truthy (JNum n) = (n \<noteq> 0)"
| "truthy (JStr s) = (s \<noteq> [])"
| "truthy (JArr xs) = True"
| "truthy (JObj fields) = True"

text \<open>
  The payload of an inbound frame, by what \<open>JSON.parse(event.data)\<close> does with it: it
  throws a SyntaxError (\<open>NotJSON\<close>) or returns a value.
\<close>

datatype payload = NotJSON | Parsed jsvalue

text \<open>
  A callback is a function object; two callbacks are \<open>===\<close> exactly when they are the same
  object, so a callback is modelled by its identity. What a callback does when it is called
  is outside the component; the one thing that matters to the component is whether the call
  throws, which is the parameter \<open>throws\<close> of the dispatch functions.
\<close>

type_synonym callback_id = nat

record Subscription =
  channel :: WebSocketChannel
  callback :: callback_id

datatype exn = SyntaxError | TypeError | CallbackError callback_id

datatype console_entry =
  LogConnected
| LogDisconnected
| LogReconnecting int int
| ErrorParse exn
| ErrorSocket
| ErrorCreate
| WarnNotConnected jsvalue

subsection \<open>The message handler (socket.onmessage)\<close>

text \<open>
  \<open>subs.forEach(sub => sub.callback(v))\<close>: the calls made, in order, and the exception
  that ended the loop, if one did. A callback that throws has been called; the callbacks
  after it have not.
\<close>

fun forEach_call ::
  "(callback_id \<Rightarrow> jsvalue \<Rightarrow> bool) \<Rightarrow> Subscription list \<Rightarrow> jsvalue
    \<Rightarrow> (callback_id \<times> jsvalue) list \<times> exn option" where
  "forEach_call throws [] v = ([], None)"
| "forEach_call throws (sub # rest) v =
     (if throws (callback sub) v then ([(callback sub, v)], Some (CallbackError (callback sub)))
      else (case forEach_call throws rest v of
              (calls, r) \<Rightarrow> ((callback sub, v) # calls, r)))"

text \<open>
  ``Route message to subscribers'': the subscriptions whose channel \<open>===\<close> the message's
  channel are called with \<open>message.data\<close>, when \<open>message.channel\<close> is truthy.
\<close>

definition route_message ::
  "(callback_id \<Rightarrow> jsvalue \<Rightarrow> bool) \<Rightarrow> Subscription list \<Rightarrow> jsvalue
    \<Rightarrow> (callback_id \<times> jsvalue) list \<times> exn option" where
  "route_message throws subs message =
     (if truthy (get_prop message ''channel'')
      then forEach_call throws
             (filter (\<lambda>sub. JStr (channel_name (channel sub)) = get_prop message ''channel'') subs)
             (get_prop message ''data'')
      else ([], None))"

text \<open>``Global message handler'': the subscriptions of \<open>system\<close> are called with the message.\<close>

definition global_handler ::
  "(callback_id \<Rightarrow> jsvalue \<Rightarrow> bool) \<Rightarrow> Subscription list \<Rightarrow> jsvalue
    \<Rightarrow> (callback_id \<times> jsvalue) list \<times> exn option" where
  "global_handler throws subs message =
     forEach_call throws (filter (\<lambda>sub. channel sub = system) subs) message"

text \<open>
  The body of the handler's \<open>try\<close> block: the calls it made and the exception that left
  it, if any. \<open>JSON.parse\<close> may throw; \<open>message.type\<close> throws on \<open>null\<close>; a pong returns
  at once; an exception in the routing loop skips the global handler.
\<close>

definition onmessage_try ::
  "(callback_id \<Rightarrow> jsvalue \<Rightarrow> bool) \<Rightarrow> Subscription list \<Rightarrow> payload
    \<Rightarrow> (callback_id \<times> jsvalue) list \<times> exn option" where
  "onmessage_try throws subs p =
     (case p of
        NotJSON \<Rightarrow> ([], Some SyntaxError)
      | Parsed message \<Rightarrow>
          if message = JNull \<or> message = JUndefined then ([], Some TypeError)
          else if get_prop message ''type'' = JStr ''pong'' then ([], None)
          else (case route_message throws subs message of
                  (routed, Some e) \<Rightarrow> (routed, Some e)
                | (routed, None) \<Rightarrow>
                    (case global_handler throws subs message of
                       (globals, r) \<Rightarrow> (routed @ globals, r))))"

text \<open>
  For the proofs: a list of calls, made in order up to and with the first one that
  throws. It is what a \<open>forEach\<close> loop over callbacks does, written over the calls.
\<close>

fun until_throw ::
  "(callback_id \<Rightarrow> jsvalue \<Rightarrow> bool) \<Rightarrow> (callback_id \<times> jsvalue) list
    \<Rightarrow> (callback_id \<times> jsvalue) list \<times> exn option" where
  "until_throw throws [] = ([], None)"
| "until_throw throws ((c, v) # rest) =
     (if throws c v then ([(c, v)], Some (CallbackError c))
      else (case until_throw throws rest of (calls, r) \<Rightarrow> ((c, v) # calls, r)))"

subsection \<open>Host objects: sockets and timers\<close>

datatype ReadyState = CONNECTING | OPEN | CLOSING | CLOSED

text \<open>
  A socket made by \<open>connect\<close>. Its four handlers are closures made in that call of
  \<open>connect\<close>; the variables they read that are not refs are those of the render in which
  that \<open>connect\<close> was made by \<open>useCallback\<close>. The one that changes between renders is the
  constant \<open>subscriptions\<close>, so each socket carries the value its handlers see.
\<close>

record WebSocket =
  readyState :: ReadyState
  handler_subscriptions :: "Subscription list"

text \<open>
  The three timer callbacks of the component: the heartbeat interval made in \<open>onopen\<close>
  (it reads the socket of that \<open>connect\<close> call), the retry timeout made in \<open>onclose\<close>
  (it calls the same \<open>connect\<close> again) and the timeout made by \<open>reconnect\<close> (it resets
  the counter and calls the \<open>connect\<close> that \<open>reconnect\<close> was made with).
\<close>

datatype timer_callback =
  HeartbeatTick nat
| RetryConnect "Subscription list"
| ManualReconnect "Subscription list"

record timer =
  fires :: timer_callback
  delay :: int
  repeats :: bool
  active :: bool

record config =
  url_valid :: bool
  autoConnect :: bool
  reconnectInterval :: int
  maxReconnectAttempts :: int
  heartbeatInterval :: int

text \<open>
  \<open>url_valid\<close> says whether \<open>new WebSocket(url)\<close> returns; it throws on a URL it cannot
  use, and \<open>connect\<close> catches that. The defaults of the provider's props:
\<close>

definition default_config :: config where
  "default_config = \<lparr>url_valid = True, autoConnect = True, reconnectInterval = 3000,
     maxReconnectAttempts = 5, heartbeatInterval = 30000\<rparr>"

text \<open>
  The state. The first seven fields are the component's own (two React states and five
  refs; a timer ref is \<open>None\<close> while it is \<open>undefined\<close>, and a timer handle is always
  truthy). \<open>sockets\<close> and \<open>timers\<close> are every socket and timer made so far, named by
  their position. \<open>sent\<close> are the frames written to sockets (the value given to
  \<open>JSON.stringify\<close>, with the socket), \<open>invoked\<close> the calls of subscriber callbacks made
  so far, \<open>console\<close> the console output.
\<close>

record session =
  status :: WebSocketStatus
  subscriptions :: "Subscription list"
  socketRef :: "nat option"
  reconnectAttemptsRef :: int
  heartbeatTimerRef :: "nat option"
  reconnectTimerRef :: "nat option"
  isManualDisconnect :: bool
  sockets :: "WebSocket list"
  timers :: "timer list"
  sent :: "(nat \<times> jsvalue) list"
  invoked :: "(callback_id \<times> jsvalue) list"
  console :: "console_entry list"

definition initial :: session where
  "initial = \<lparr>status = disconnected, subscriptions = [], socketRef = None,
     reconnectAttemptsRef = 0, heartbeatTimerRef = None, reconnectTimerRef = None,
     isManualDisconnect = False, sockets = [], timers = [], sent = [], invoked = [],
     console = []\<rparr>"

definition socket_at :: "session \<Rightarrow> nat \<Rightarrow> WebSocket option" where
  "socket_at s k = (if k < length (sockets s) then Some (sockets s ! k) else None)"

definition timer_at :: "session \<Rightarrow> nat \<Rightarrow> timer option" where
  "timer_at s t = (if t < length (timers s) then Some (timers s ! t) else None)"

definition socket_readyState :: "session \<Rightarrow> nat \<Rightarrow> ReadyState option" where
  "socket_readyState s k = map_option readyState (socket_at s k)"

text \<open>\<open>socketRef.current?.readyState === WebSocket.OPEN\<close>\<close>

definition current_open :: "session \<Rightarrow> bool" where
  "current_open s =
     (case socketRef s of None \<Rightarrow> False | Some k \<Rightarrow> socket_readyState s k = Some OPEN)"

text \<open>
  \<open>socket.send(JSON.stringify(frame))\<close>: an open socket takes the frame, a socket that
  is closing or closed drops it. On a socket that is still connecting \<open>send\<close> would
  throw; the component never does that (each of its sends is behind a test for
  \<open>OPEN\<close> or inside \<open>onopen\<close>), and the model drops the frame there too.
\<close>

definition socket_send :: "nat \<Rightarrow> jsvalue \<Rightarrow> session \<Rightarrow> session" where
  "socket_send k frame s =
     (if socket_readyState s k = Some OPEN then s\<lparr>sent := sent s @ [(k, frame)]\<rparr> else s)"

definition set_readyState :: "nat \<Rightarrow> ReadyState \<Rightarrow> session \<Rightarrow> session" where
  "set_readyState k r s =
     (if k < length (sockets s)
      then s\<lparr>sockets := (sockets s)[k := (sockets s ! k)\<lparr>readyState := r\<rparr>]\<rparr> else s)"

text \<open>\<open>socket.close()\<close>: a socket that is connecting or open starts closing.\<close>

definition socket_close :: "nat \<Rightarrow> session \<Rightarrow> session" where
  "socket_close k s =
     (if socket_readyState s k = Some CONNECTING \<or> socket_readyState s k = Some OPEN
      then set_readyState k CLOSING s else s)"

text \<open>\<open>setInterval\<close> and \<open>setTimeout\<close> return the new handle; \<open>clearInterval\<close> and
  \<open>clearTimeout\<close> stop the timer with that handle.\<close>

definition new_timer :: "timer_callback \<Rightarrow> int \<Rightarrow> bool \<Rightarrow> session \<Rightarrow> nat \<times> session" where
  "new_timer f d rep s =
     (length (timers s),
      s\<lparr>timers := timers s @ [\<lparr>fires = f, delay = d, repeats = rep, active = True\<rparr>]\<rparr>)"

definition clear_timer :: "nat \<Rightarrow> session \<Rightarrow> session" where
  "clear_timer t s =
     (if t < length (timers s)
      then s\<lparr>timers := (timers s)[t := (timers s ! t)\<lparr>active := False\<rparr>]\<rparr> else s)"

definition ping_frame :: jsvalue where
  "ping_frame = JObj [(''type'', JStr ''ping'')]"

definition subscribe_frame :: "WebSocketChannel \<Rightarrow> jsvalue" where
  "subscribe_frame c = JObj [(''type'', JStr ''subscribe''), (''channel'', JStr (channel_name c))]"

definition unsubscribe_frame :: "WebSocketChannel \<Rightarrow> jsvalue" where
  "unsubscribe_frame c =
     JObj [(''type'', JStr ''unsubscribe''), (''channel'', JStr (channel_name c))]"

subsection \<open>connect and the handlers it installs\<close>

text \<open>
  \<open>connect\<close>, as made in a render whose \<open>subscriptions\<close> is \<open>subs\<close>. The guard looks at
  the ready state of the current socket only.
\<close>

definition connect :: "config \<Rightarrow> Subscription list \<Rightarrow> session \<Rightarrow> session" where
  "connect cfg subs s =
     (if current_open s then s
      else let s1 = s\<lparr>status := connecting, isManualDisconnect := False\<rparr>
           in if url_valid cfg
              then s1\<lparr>sockets := sockets s1 @
                         [\<lparr>readyState = CONNECTING, handler_subscriptions = subs\<rparr>],
                      socketRef := Some (length (sockets s1))\<rparr>
              else s1\<lparr>console := console s1 @ [ErrorCreate], status := error\<rparr>)"

text \<open>The resubscription loop of \<open>onopen\<close>: one frame for each subscription.\<close>

fun resubscribe :: "nat \<Rightarrow> Subscription list \<Rightarrow> session \<Rightarrow> session" where
  "resubscribe k [] s = s"
| "resubscribe k (sub # rest) s = resubscribe k rest (socket_send k (subscribe_frame (channel sub)) s)"

definition socket_onopen :: "config \<Rightarrow> nat \<Rightarrow> Subscription list \<Rightarrow> session \<Rightarrow> session" where
  "socket_onopen cfg k subs s =
     (let s1 = s\<lparr>console := console s @ [LogConnected], status := connected,
                 reconnectAttemptsRef := 0\<rparr>;
          s2 = (if heartbeatInterval cfg > 0
                then (case new_timer (HeartbeatTick k) (heartbeatInterval cfg) True s1 of
                        (h, s') \<Rightarrow> s'\<lparr>heartbeatTimerRef := Some h\<rparr>)
                else s1)
      in resubscribe k subs s2)"

definition socket_onmessage ::
  "(callback_id \<Rightarrow> jsvalue \<Rightarrow> bool) \<Rightarrow> Subscription list \<Rightarrow> payload \<Rightarrow> session \<Rightarrow> session" where
  "socket_onmessage throws subs p s =
     (case onmessage_try throws subs p of
        (calls, None) \<Rightarrow> s\<lparr>invoked := invoked s @ calls\<rparr>
      | (calls, Some e) \<Rightarrow>
          s\<lparr>invoked := invoked s @ calls, console := console s @ [ErrorParse e]\<rparr>)"

definition socket_onerror :: "session \<Rightarrow> session" where
  "socket_onerror s = s\<lparr>console := console s @ [ErrorSocket], status := error\<rparr>"

definition socket_onclose :: "config \<Rightarrow> Subscription list \<Rightarrow> session \<Rightarrow> session" where
  "socket_onclose cfg subs s =
     (let s1 = s\<lparr>console := console s @ [LogDisconnected], status := disconnected\<rparr>;
          s2 = (case heartbeatTimerRef s1 of None \<Rightarrow> s1 | Some h \<Rightarrow> clear_timer h s1)
      in if \<not> isManualDisconnect s2 \<and> reconnectAttemptsRef s2 < maxReconnectAttempts cfg
         then let s3 = s2\<lparr>reconnectAttemptsRef := reconnectAttemptsRef s2 + 1\<rparr>;
                  s4 = s3\<lparr>console := console s3 @
                          [LogReconnecting (reconnectAttemptsRef s3) (maxReconnectAttempts cfg)]\<rparr>
              in (case new_timer (RetryConnect subs) (reconnectInterval cfg) False s4 of
                    (r, s') \<Rightarrow> s'\<lparr>reconnectTimerRef := Some r\<rparr>)
         else s2)"

subsection \<open>The other functions of the context value\<close>

definition disconnect :: "session \<Rightarrow> session" where
  "disconnect s =
     (let s1 = s\<lparr>isManualDisconnect := True, status := disconnecting\<rparr>;
          s2 = (case heartbeatTimerRef s1 of None \<Rightarrow> s1 | Some h \<Rightarrow> clear_timer h s1);
          s3 = (case reconnectTimerRef s2 of None \<Rightarrow> s2 | Some r \<Rightarrow> clear_timer r s2);
          s4 = (case socketRef s3 of None \<Rightarrow> s3
                | Some k \<Rightarrow> (socket_close k s3)\<lparr>socketRef := None\<rparr>)
      in s4\<lparr>status := disconnected\<rparr>)"

definition reconnect :: "Subscription list \<Rightarrow> session \<Rightarrow> session" where
  "reconnect subs s = snd (new_timer (ManualReconnect subs) 100 False (disconnect s))"

definition send :: "jsvalue \<Rightarrow> session \<Rightarrow> session" where
  "send message s =
     (if current_open s
      then (case socketRef s of None \<Rightarrow> s | Some k \<Rightarrow> socket_send k message s)
      else s\<lparr>console := console s @ [WarnNotConnected message]\<rparr>)"

text \<open>The function that \<open>subscribe\<close> returns, and \<open>unsubscribe\<close>: the same two statements.\<close>

definition returned_unsubscribe :: "WebSocketChannel \<Rightarrow> callback_id \<Rightarrow> session \<Rightarrow> session" where
  "returned_unsubscribe c f s =
     (let s1 = s\<lparr>subscriptions :=
                   filter (\<lambda>e. \<not> (channel e = c \<and> callback e = f)) (subscriptions s)\<rparr>
      in if current_open s1 then send (unsubscribe_frame c) s1 else s1)"

definition unsubscribe :: "WebSocketChannel \<Rightarrow> callback_id \<Rightarrow> session \<Rightarrow> session" where
  "unsubscribe c f s =
     (let s1 = s\<lparr>subscriptions :=
                   filter (\<lambda>e. \<not> (channel e = c \<and> callback e = f)) (subscriptions s)\<rparr>
      in if current_open s1 then send (unsubscribe_frame c) s1 else s1)"

definition subscribe ::
  "WebSocketChannel \<Rightarrow> callback_id \<Rightarrow> session \<Rightarrow> session \<times> (session \<Rightarrow> session)" where
  "subscribe c f s =
     (let subscription = \<lparr>channel = c, callback = f\<rparr>;
          s1 = s\<lparr>subscriptions :=
                   (if list_ex (\<lambda>e. channel e = c \<and> callback e = f) (subscriptions s)
                    then subscriptions s else subscriptions s @ [subscription])\<rparr>;
          s2 = (if current_open s1 then send (subscribe_frame c) s1 else s1)
      in (s2, returned_unsubscribe c f))"

subsection \<open>Events\<close>

text \<open>
  What can happen to the component. The browser delivers \<open>open\<close> to a socket that is
  connecting, \<open>message\<close> to one that is open, \<open>error\<close> and \<open>close\<close> to one that is not yet
  closed, and it runs a timer that is active; it sets the ready state before it calls the
  handler. The application calls the functions of the context value; a \<open>connect\<close> or
  \<open>reconnect\<close> it calls is that of the latest render, whose \<open>subscriptions\<close> is the
  current state. The effect that runs on mount has no dependencies, so the \<open>connect\<close> it
  calls is that of the first render, whose \<open>subscriptions\<close> is the initial \<open>[]\<close>.
\<close>

datatype event =
  Open nat
| Message nat payload
| Error nat
| Close nat
| Fire nat
| Mount
| Unmount
| CallConnect
| CallDisconnect
| CallReconnect
| CallSend jsvalue
| CallSubscribe WebSocketChannel callback_id
| CallUnsubscribe WebSocketChannel callback_id

definition fire ::
  "config \<Rightarrow> nat \<Rightarrow> session \<Rightarrow> session" where
  "fire cfg t s =
     (case timer_at s t of
        None \<Rightarrow> s
      | Some tm \<Rightarrow>
          if \<not> active tm then s
          else let s1 = (if repeats tm then s else clear_timer t s)
               in (case fires tm of
                     HeartbeatTick k \<Rightarrow>
                       if socket_readyState s1 k = Some OPEN then socket_send k ping_frame s1
                       else s1
                   | RetryConnect subs \<Rightarrow> connect cfg subs s1
                   | ManualReconnect subs \<Rightarrow> connect cfg subs (s1\<lparr>reconnectAttemptsRef := 0\<rparr>)))"

definition browser_open :: "config \<Rightarrow> nat \<Rightarrow> session \<Rightarrow> session" where
  "browser_open cfg k s =
     (case socket_at s k of
        None \<Rightarrow> s
      | Some sock \<Rightarrow>
          if readyState sock = CONNECTING
          then socket_onopen cfg k (handler_subscriptions sock) (set_readyState k OPEN s)
          else s)"

definition browser_message ::
  "(callback_id \<Rightarrow> jsvalue \<Rightarrow> bool) \<Rightarrow> nat \<Rightarrow> payload \<Rightarrow> session \<Rightarrow> session" where
  "browser_message throws k p s =
     (case socket_at s k of
        None \<Rightarrow> s
      | Some sock \<Rightarrow>
          if readyState sock = OPEN
          then socket_onmessage throws (handler_subscriptions sock) p s
          else s)"

definition browser_error :: "nat \<Rightarrow> session \<Rightarrow> session" where
  "browser_error k s =
     (case socket_at s k of
        None \<Rightarrow> s
      | Some sock \<Rightarrow> if readyState sock = CLOSED then s else socket_onerror s)"

definition browser_close :: "config \<Rightarrow> nat \<Rightarrow> session \<Rightarrow> session" where
  "browser_close cfg k s =
     (case socket_at s k of
        None \<Rightarrow> s
      | Some sock \<Rightarrow>
          if readyState sock = CLOSED then s
          else socket_onclose cfg (handler_subscriptions sock) (set_readyState k CLOSED s))"

definition step ::
  "config \<Rightarrow> (callback_id \<Rightarrow> jsvalue \<Rightarrow> bool) \<Rightarrow> event \<Rightarrow> session \<Rightarrow> session" where
  "step cfg throws ev s =
     (case ev of
        Open k \<Rightarrow> browser_open cfg k s
      | Message k p \<Rightarrow> browser_message throws k p s
      | Error k \<Rightarrow> browser_error k s
      | Close k \<Rightarrow> browser_close cfg k s
      | Fire t \<Rightarrow> fire cfg t s
      | Mount \<Rightarrow> (if autoConnect cfg then connect cfg [] s else s)
      | Unmount \<Rightarrow> disconnect s
      | CallConnect \<Rightarrow> connect cfg (subscriptions s) s
      | CallDisconnect \<Rightarrow> disconnect s
      | CallReconnect \<Rightarrow> reconnect (subscriptions s) s
      | CallSend message \<Rightarrow> send message s
      | CallSubscribe c f \<Rightarrow> fst (subscribe c f s)
      | CallUnsubscribe c f \<Rightarrow> unsubscribe c f s)"

fun run ::
  "config \<Rightarrow> (callback_id \<Rightarrow> jsvalue \<Rightarrow> bool) \<Rightarrow> event list \<Rightarrow> session \<Rightarrow> session" where
  "run cfg throws [] s = s"
| "run cfg throws (ev # evs) s = run cfg throws evs (step cfg throws ev s)"

subsection \<open>A run of failed connections\<close>

text \<open>
  The retry timeouts that are still to fire: each of them will call \<open>connect\<close> by itself.
\<close>

fun is_retry :: "timer_callback \<Rightarrow> bool" where
  "is_retry (RetryConnect subs) = True"
| "is_retry _ = False"

definition pending_retries :: "session \<Rightarrow> timer list" where
  "pending_retries s = filter (\<lambda>tm. active tm \<and> is_retry (fires tm)) (timers s)"

text \<open>
  One round of a reconnection episode: the retry timeout held in \<open>reconnectTimerRef\<close>
  fires, if it is still to fire (that calls \<open>connect\<close>, which makes the next socket); then
  the current socket closes. \<open>fail_run cfg n\<close> is \<open>n\<close> such rounds: \<open>n\<close> closes in a row
  with no \<open>open\<close> event and no call by the application in between.
\<close>

definition fire_retry :: "config \<Rightarrow> session \<Rightarrow> session" where
  "fire_retry cfg s = (case reconnectTimerRef s of None \<Rightarrow> s | Some r \<Rightarrow> fire cfg r s)"

definition close_current :: "config \<Rightarrow> session \<Rightarrow> session" where
  "close_current cfg s = (case socketRef s of None \<Rightarrow> s | Some k \<Rightarrow> browser_close cfg k s)"

definition fail_round :: "config \<Rightarrow> session \<Rightarrow> session" where
  "fail_round cfg s = close_current cfg (fire_retry cfg s)"

fun fail_run :: "config \<Rightarrow> nat \<Rightarrow> session \<Rightarrow> session" where
  "fail_run cfg 0 s = s"
| "fail_run cfg (Suc n) s = fail_run cfg n (fail_round cfg s)"

text \<open>
  Three kinds of state in such a run. At the start of an episode the current socket has
  not closed, the application has not disconnected, and no retry is to fire (the timer
  in \<open>reconnectTimerRef\<close>, if there is one, has fired or has been cleared). While the
  session waits for a retry, the last timer made is the retry timeout held in
  \<open>reconnectTimerRef\<close>, set for \<open>reconnectInterval\<close>, and no other retry is to fire.
  When the session has given up, the current socket is closed and no retry is to fire.
  \<open>heartbeat_cleared\<close> is the step of \<open>onclose\<close> that clears the heartbeat timer.
\<close>

definition heartbeat_cleared :: "session \<Rightarrow> session" where
  "heartbeat_cleared s = (case heartbeatTimerRef s of None \<Rightarrow> s | Some h \<Rightarrow> clear_timer h s)"

definition retry_timer_idle :: "session \<Rightarrow> bool" where
  "retry_timer_idle s =
     (case reconnectTimerRef s of
        None \<Rightarrow> True
      | Some r \<Rightarrow> (case timer_at s r of None \<Rightarrow> False | Some tm \<Rightarrow> \<not> active tm))"

definition current_live :: "session \<Rightarrow> bool" where
  "current_live s =
     (case socketRef s of
        None \<Rightarrow> False
      | Some k \<Rightarrow> (case socket_readyState s k of None \<Rightarrow> False | Some r \<Rightarrow> r \<noteq> CLOSED))"

definition episode_start :: "session \<Rightarrow> bool" where
  "episode_start s =
     (\<not> isManualDisconnect s \<and> current_live s \<and> pending_retries s = [] \<and> retry_timer_idle s)"

definition waiting :: "config \<Rightarrow> session \<Rightarrow> bool" where
  "waiting cfg s =
     (\<not> isManualDisconnect s \<and> \<not> current_live s \<and> status s = disconnected \<and>
      (\<exists>ts subs.
         timers s = ts @ [\<lparr>fires = RetryConnect subs, delay = reconnectInterval cfg,
                           repeats = False, active = True\<rparr>] \<and>
         filter (\<lambda>tm. active tm \<and> is_retry (fires tm)) ts = [] \<and>
         reconnectTimerRef s = Some (length ts)))"

definition given_up :: "session \<Rightarrow> bool" where
  "given_up s =
     (\<not> current_live s \<and> status s = disconnected \<and> pending_retries s = [] \<and>
      retry_timer_idle s)"

subsection \<open>Inputs used in the examples\<close>

definition never_throws :: "callback_id \<Rightarrow> jsvalue \<Rightarrow> bool" where
  "never_throws c v = False"

text \<open>Callback 1 throws whatever it is given; the others return.\<close>

definition first_throws :: "callback_id \<Rightarrow> jsvalue \<Rightarrow> bool" where
  "first_throws c v = (c = 1)"

text \<open>An application frame on a channel, with the payload 7.\<close>

definition tick_frame :: "WebSocketChannel \<Rightarrow> jsvalue" where
  "tick_frame c = JObj [(''type'', JStr ''tick''), (''channel'', JStr (channel_name c)),
     (''data'', JNum 7), (''timestamp'', JStr ''2024-01-01T00:00:00Z'')]"

definition pong_frame :: jsvalue where
  "pong_frame = JObj [(''type'', JStr ''pong'')]"

text \<open>A frame that is valid JSON and has no \<open>type\<close>.\<close>

definition untyped_frame :: jsvalue where
  "untyped_frame = JObj [(''channel'', JStr ''prices''), (''data'', JNum 7)]"

text \<open>A ping frame that carries a channel.\<close>

definition ping_on_prices :: jsvalue where
  "ping_on_prices = JObj [(''type'', JStr ''ping''), (''channel'', JStr ''prices''),
     (''data'', JNum 7)]"

text \<open>The configuration of the specification's scenario: two retries, 100 ms apart.\<close>

definition quick_config :: config where
  "quick_config = default_config\<lparr>reconnectInterval := 100, maxReconnectAttempts := 2\<rparr>"

text \<open>
  Two callbacks subscribe to \<open>prices\<close>, then the application connects and the socket
  opens: the handlers of socket 0 see both subscriptions.
\<close>

definition two_listeners :: session where
  "two_listeners = run default_config never_throws
     [CallSubscribe prices 1, CallSubscribe prices 2, CallConnect, Open 0] initial"

section \<open>Properties\<close>

subsection \<open>Dispatch\<close>

lemma channel_name_inj: "channel_name a = channel_name b \<longleftrightarrow> a = b"
  by (cases a; cases b; simp)

lemma Subscription_eq:
  "(e :: Subscription) = \<lparr>channel = c, callback = f\<rparr> \<longleftrightarrow> channel e = c \<and> callback e = f"
  by (cases e) simp

lemma count_list_zero: "x \<notin> set xs \<Longrightarrow> count_list xs x = 0"
  by (induction xs) auto

lemma count_list_distinct_le: "distinct xs \<Longrightarrow> count_list xs x \<le> 1"
  by (induction xs) (auto simp: count_list_zero)

lemma count_list_take_le: "count_list (take n xs) x \<le> count_list xs x"
proof (induction xs arbitrary: n)
  case Nil
  then show ?case by simp
next
  case (Cons a xs)
  show ?case
  proof (cases n)
    case 0
    then show ?thesis by simp
  next
    case (Suc j)
    then show ?thesis using Cons [of j] by simp
  qed
qed

lemma count_list_map_callback:
  "count_list (map (\<lambda>e. (callback e, v)) xs) (c, v) = count_list (map callback xs) c"
  by (induction xs) auto

text \<open>A loop in which nothing throws calls every callback, in order.\<close>

lemma forEach_call_no_throw:
  "list_all (\<lambda>e. \<not> throws (callback e) v) subs \<Longrightarrow>
   forEach_call throws subs v = (map (\<lambda>e. (callback e, v)) subs, None)"
  by (induction subs) auto

lemma forEach_call_append:
  "list_all (\<lambda>e. \<not> throws (callback e) v) xs \<Longrightarrow>
   forEach_call throws (xs @ ys) v =
     (map (\<lambda>e. (callback e, v)) xs @ fst (forEach_call throws ys v),
      snd (forEach_call throws ys v))"
  by (induction xs) (auto split: prod.splits)

text \<open>Whatever throws, the calls made are those of a prefix of the list.\<close>

lemma forEach_call_prefix:
  "\<exists>n. fst (forEach_call throws subs v) = map (\<lambda>e. (callback e, v)) (take n subs)"
proof (induction subs)
  case Nil
  then show ?case by simp
next
  case (Cons sub rest)
  then obtain n where
    n: "fst (forEach_call throws rest v) = map (\<lambda>e. (callback e, v)) (take n rest)"
    by blast
  show ?case
  proof (cases "throws (callback sub) v")
    case True
    then have "fst (forEach_call throws (sub # rest) v) =
                 map (\<lambda>e. (callback e, v)) (take (Suc 0) (sub # rest))"
      by simp
    then show ?thesis by blast
  next
    case False
    then have "fst (forEach_call throws (sub # rest) v) =
                 map (\<lambda>e. (callback e, v)) (take (Suc n) (sub # rest))"
      using n by (auto split: prod.splits)
    then show ?thesis by blast
  qed
qed

lemma forEach_call_set:
  assumes "(c, x) \<in> set (fst (forEach_call throws subs v))"
  shows "x = v \<and> (\<exists>e \<in> set subs. callback e = c)"
proof -
  obtain n where "fst (forEach_call throws subs v) = map (\<lambda>e. (callback e, v)) (take n subs)"
    using forEach_call_prefix by blast
  with assms have "(c, x) \<in> (\<lambda>e. (callback e, v)) ` set (take n subs)" by simp
  then show ?thesis using set_take_subset by fastforce
qed

text \<open>A property of a message is smaller than the message, so it is not the message.\<close>

lemma map_of_size: "map_of fs k = Some v \<Longrightarrow> size v < size (JObj fs)"
  by (induction fs) (auto split: if_splits)

lemma get_prop_neq: "get_prop m k = JStr x \<Longrightarrow> get_prop m k' \<noteq> m"
  apply (cases m; simp split: option.splits)
  using map_of_size by fastforce

text \<open>The handler touches two fields of the state: the calls made and the console.\<close>

lemma socket_onmessage_frame:
  "socket_onmessage throws subs p s =
     s\<lparr>invoked := invoked s @ fst (onmessage_try throws subs p),
       console := console s @
         (case snd (onmessage_try throws subs p) of None \<Rightarrow> [] | Some e \<Rightarrow> [ErrorParse e])\<rparr>"
  by (simp add: socket_onmessage_def split: prod.splits option.splits)

lemma route_message_on_channel:
  assumes "get_prop m ''channel'' = JStr (channel_name T)"
  shows "route_message throws subs m =
           forEach_call throws (filter (\<lambda>e. channel e = T) subs) (get_prop m ''data'')"
proof -
  have "channel_name T \<noteq> []" by (cases T) simp_all
  then show ?thesis using assms by (simp add: route_message_def channel_name_inj)
qed

lemma onmessage_try_calls:
  assumes "get_prop m ''type'' \<noteq> JStr ''pong''" "m \<noteq> JNull" "m \<noteq> JUndefined"
  shows "\<exists>globals.
           fst (onmessage_try throws subs (Parsed m)) = fst (route_message throws subs m) @ globals
           \<and> (\<forall>c x. (c, x) \<in> set globals \<longrightarrow> x = m)"
proof -
  obtain routed r where rt: "route_message throws subs m = (routed, r)" by fastforce
  show ?thesis
  proof (cases r)
    case None
    have "\<forall>c x. (c, x) \<in> set (fst (global_handler throws subs m)) \<longrightarrow> x = m"
      unfolding global_handler_def using forEach_call_set by blast
    then show ?thesis using assms rt None
      by (auto simp: onmessage_try_def split: prod.splits)
  next
    case (Some e)
    then show ?thesis using assms rt by (simp add: onmessage_try_def)
  qed
qed

text \<open>
  The calls of the routing loop for a frame on channel \<open>T\<close>, when nothing registered for
  \<open>T\<close> ahead of \<open>cb\<close> throws: \<open>cb\<close> is called once.
\<close>

lemma route_message_once:
  assumes reg: "subs = before @ \<lparr>channel = T, callback = cb\<rparr> # after" "distinct subs"
    and chan: "get_prop m ''channel'' = JStr (channel_name T)"
    and ok: "list_all (\<lambda>e. channel e = T \<longrightarrow> \<not> throws (callback e) (get_prop m ''data'')) before"
  shows "count_list (fst (route_message throws subs m)) (cb, get_prop m ''data'') = 1"
proof -
  let ?d = "get_prop m ''data''"
  let ?f = "\<lambda>e. (callback e, ?d)"
  let ?B = "filter (\<lambda>e. channel e = T) before"
  let ?A = "filter (\<lambda>e. channel e = T) after"
  let ?routed = "fst (route_message throws subs m)"
  have okB: "list_all (\<lambda>e. \<not> throws (callback e) ?d) ?B"
    using ok by (simp add: list_all_iff)
  obtain n where n: "fst (forEach_call throws ?A ?d) = map ?f (take n ?A)"
    using forEach_call_prefix by blast
  have tail: "fst (forEach_call throws (\<lparr>channel = T, callback = cb\<rparr> # ?A) ?d) =
                (cb, ?d) # (if throws cb ?d then [] else map ?f (take n ?A))"
    using n by (auto split: prod.splits)
  have F: "filter (\<lambda>e. channel e = T) subs = ?B @ \<lparr>channel = T, callback = cb\<rparr> # ?A"
    by (simp add: reg(1))
  have "?routed = fst (forEach_call throws (?B @ \<lparr>channel = T, callback = cb\<rparr> # ?A) ?d)"
    by (simp only: route_message_on_channel [OF chan] F)
  also have "\<dots> = map ?f ?B @ fst (forEach_call throws (\<lparr>channel = T, callback = cb\<rparr> # ?A) ?d)"
    by (simp only: forEach_call_append [where throws = throws and xs = ?B, OF okB] fst_conv)
  finally have routed:
    "?routed = map ?f ?B @ (cb, ?d) # (if throws cb ?d then [] else map ?f (take n ?A))"
    by (simp only: tail)
  have notB: "cb \<notin> callback ` set ?B"
  proof
    assume "cb \<in> callback ` set ?B"
    then obtain e where e: "e \<in> set before" "channel e = T" "callback e = cb" by auto
    then have "e = \<lparr>channel = T, callback = cb\<rparr>" by (simp add: Subscription_eq)
    with e have "\<lparr>channel = T, callback = cb\<rparr> \<in> set before" by simp
    then show False using reg by simp
  qed
  have notA: "cb \<notin> callback ` set (take n ?A)"
  proof
    assume "cb \<in> callback ` set (take n ?A)"
    then obtain e where "e \<in> set (take n ?A)" "callback e = cb" by auto
    then have e: "e \<in> set after" "channel e = T" "callback e = cb"
      using set_take_subset [of n ?A] by auto
    then have "e = \<lparr>channel = T, callback = cb\<rparr>" by (simp add: Subscription_eq)
    with e have "\<lparr>channel = T, callback = cb\<rparr> \<in> set after" by simp
    then show False using reg by simp
  qed
  have cB: "count_list (map ?f ?B) (cb, ?d) = 0"
    using notB by (intro count_list_zero) auto
  have cA: "count_list (map ?f (take n ?A)) (cb, ?d) = 0"
    using notA by (intro count_list_zero) auto
  show ?thesis unfolding routed using cB cA by simp
qed

lemma route_message_members:
  assumes chan: "get_prop m ''channel'' = JStr (channel_name T)"
    and call: "(c, x) \<in> set (fst (route_message throws subs m))"
  shows "x = get_prop m ''data'' \<and> \<lparr>channel = T, callback = c\<rparr> \<in> set subs"
proof -
  have "x = get_prop m ''data'' \<and> (\<exists>e \<in> set (filter (\<lambda>e. channel e = T) subs). callback e = c)"
    using call unfolding route_message_on_channel [OF chan] by (rule forEach_call_set)
  then obtain e where e: "x = get_prop m ''data''" "e \<in> set subs" "channel e = T" "callback e = c"
    by auto
  then have "e = \<lparr>channel = T, callback = c\<rparr>" by (simp add: Subscription_eq)
  with e show ?thesis by simp
qed

subsection \<open>Control frames\<close>

text \<open>
  Claim C7, as stated, says that pong and ping frames alike never reach a subscriber. The
  handler has a test for \<open>pong\<close> only. At this input a ping frame that carries the channel
  \<open>prices\<close> arrives on an open socket whose handler sees callback 1 on \<open>prices\<close> and
  callback 2 on \<open>system\<close>: callback 1 is called with the data and callback 2 with the
  frame.
\<close>

theorem ping_is_forwarded:
  "invoked (run default_config never_throws
     [CallSubscribe prices 1, CallSubscribe system 2, CallConnect, Open 0,
      Message 0 (Parsed ping_on_prices)] initial)
   = [(1, JNum 7), (2, ping_on_prices)]"
  by code_simp

text \<open>
  Claim C7, amended: every inbound frame of type pong is consumed by the handler and is
  never forwarded: no subscriber callback, on any channel, is called for it, and the
  state stays as it is.
\<close>

theorem pong_is_consumed:
  assumes "get_prop m ''type'' = JStr ''pong''"
  shows "socket_onmessage throws subs (Parsed m) s = s \<and>
         step cfg throws (Message k (Parsed m)) s = s"
proof -
  have "m \<noteq> JNull" "m \<noteq> JUndefined" using assms by auto
  then have "onmessage_try throws subs' (Parsed m) = ([], None)" for subs'
    using assms by (simp add: onmessage_try_def)
  then show ?thesis
    by (simp add: socket_onmessage_def step_def browser_message_def split: option.splits)
qed

theorem pong_is_consumed_witness:
  "get_prop pong_frame ''type'' = JStr ''pong'' \<and>
   step default_config never_throws (Message 0 (Parsed pong_frame)) two_listeners = two_listeners"
proof -
  have h: "get_prop pong_frame ''type'' = JStr ''pong''" by code_simp
  from pong_is_consumed [OF h] h show ?thesis by simp
qed

subsection \<open>Frames that do not decode\<close>

text \<open>
  Claim C9, as stated, counts a payload without \<open>type\<close> among those that fail to decode
  and are discarded. The handler does not look for \<open>type\<close> beyond comparing it with
  \<open>pong\<close>: at this input a frame without \<open>type\<close> on channel \<open>prices\<close> is passed to the
  callback, and nothing is written to the console for it.
\<close>

theorem untyped_frame_dispatched:
  "get_prop untyped_frame ''type'' = JUndefined \<and>
   invoked (run default_config never_throws
     [CallSubscribe prices 1, CallConnect, Open 0, Message 0 (Parsed untyped_frame)] initial)
   = [(1, JNum 7)] \<and>
   console (run default_config never_throws
     [CallSubscribe prices 1, CallConnect, Open 0, Message 0 (Parsed untyped_frame)] initial)
   = [LogConnected]"
  by code_simp

lemma message_step:
  assumes "socket_at s k = Some sock" "readyState sock = OPEN"
  shows "step cfg throws (Message k p) s = socket_onmessage throws (handler_subscriptions sock) p s"
  using assms by (simp add: step_def browser_message_def)

lemma messages_invoked:
  assumes "socket_at s k = Some sock" "readyState sock = OPEN"
  shows "invoked (run cfg throws (map (Message k) ps) s) =
           invoked s @ concat (map (\<lambda>p. fst (onmessage_try throws (handler_subscriptions sock) p)) ps)"
  using assms(1)
proof (induction ps arbitrary: s)
  case Nil
  then show ?case by simp
next
  case (Cons p ps)
  let ?s1 = "step cfg throws (Message k p) s"
  have s1: "?s1 = socket_onmessage throws (handler_subscriptions sock) p s"
    using Cons.prems assms(2) by (rule message_step)
  have "socket_at ?s1 k = Some sock"
    using Cons.prems by (simp add: s1 socket_onmessage_frame socket_at_def split: if_splits)
  from Cons.IH [OF this] show ?case
    by (simp add: s1 socket_onmessage_frame)
qed

text \<open>
  Claim C9, amended: for every inbound frame whose payload is not valid JSON, or is the
  JSON value \<open>null\<close>, the exception is caught in the handler, the frame is logged and
  discarded (the state changes in the console only), and the frames delivered before and
  after it are dispatched as they are without it. A payload that is valid JSON and has no
  \<open>type\<close> is not among them.
\<close>

theorem undecodable_frame_discarded:
  assumes "socket_at s k = Some sock" "readyState sock = OPEN"
  shows "step cfg throws (Message k NotJSON) s = s\<lparr>console := console s @ [ErrorParse SyntaxError]\<rparr> \<and>
         step cfg throws (Message k (Parsed JNull)) s =
           s\<lparr>console := console s @ [ErrorParse TypeError]\<rparr> \<and>
         invoked (run cfg throws [Message k p1, Message k NotJSON, Message k p2] s) =
           invoked s @ fst (onmessage_try throws (handler_subscriptions sock) p1)
                     @ fst (onmessage_try throws (handler_subscriptions sock) p2) \<and>
         invoked (run cfg throws [Message k p1, Message k (Parsed JNull), Message k p2] s) =
           invoked s @ fst (onmessage_try throws (handler_subscriptions sock) p1)
                     @ fst (onmessage_try throws (handler_subscriptions sock) p2) \<and>
         invoked (run cfg throws [Message k p1, Message k p2] s) =
           invoked s @ fst (onmessage_try throws (handler_subscriptions sock) p1)
                     @ fst (onmessage_try throws (handler_subscriptions sock) p2)"
proof -
  have bad: "onmessage_try throws subs NotJSON = ([], Some SyntaxError)"
            "onmessage_try throws subs (Parsed JNull) = ([], Some TypeError)" for subs
    by (simp_all add: onmessage_try_def)
  have one: "step cfg throws (Message k p) s =
               socket_onmessage throws (handler_subscriptions sock) p s" for p
    using assms by (rule message_step)
  have three: "invoked (run cfg throws [Message k p, Message k q, Message k r] s) =
                 invoked s @ fst (onmessage_try throws (handler_subscriptions sock) p)
                           @ fst (onmessage_try throws (handler_subscriptions sock) q)
                           @ fst (onmessage_try throws (handler_subscriptions sock) r)" for p q r
    using messages_invoked [OF assms, of cfg throws "[p, q, r]"] by simp
  have two: "invoked (run cfg throws [Message k p, Message k q] s) =
                 invoked s @ fst (onmessage_try throws (handler_subscriptions sock) p)
                           @ fst (onmessage_try throws (handler_subscriptions sock) q)" for p q
    using messages_invoked [OF assms, of cfg throws "[p, q]"] by simp
  show ?thesis
    by (simp only: one two three socket_onmessage_frame bad) simp
qed

theorem undecodable_frame_discarded_witness:
  "socket_at two_listeners 0 =
     Some \<lparr>readyState = OPEN,
           handler_subscriptions =
             [\<lparr>channel = prices, callback = 1\<rparr>, \<lparr>channel = prices, callback = 2\<rparr>]\<rparr> \<and>
   step default_config never_throws (Message 0 NotJSON) two_listeners =
     two_listeners\<lparr>console := console two_listeners @ [ErrorParse SyntaxError]\<rparr> \<and>
   invoked (run default_config never_throws
     [Message 0 (Parsed (tick_frame prices)), Message 0 NotJSON,
      Message 0 (Parsed (tick_frame prices))] two_listeners)
   = [(1, JNum 7), (2, JNum 7), (1, JNum 7), (2, JNum 7)]"
proof -
  let ?sock = "\<lparr>readyState = OPEN,
     handler_subscriptions =
       [\<lparr>channel = prices, callback = 1\<rparr>, \<lparr>channel = prices, callback = 2\<rparr>]\<rparr>"
  have h1: "socket_at two_listeners 0 = Some ?sock" by code_simp
  have h2: "readyState ?sock = OPEN" by simp
  have e: "invoked two_listeners = []" by code_simp
  have c: "fst (onmessage_try never_throws (handler_subscriptions ?sock) (Parsed (tick_frame prices)))
             = [(1, JNum 7), (2, JNum 7)]" by code_simp
  from undecodable_frame_discarded [OF h1 h2, of default_config never_throws
      "Parsed (tick_frame prices)" "Parsed (tick_frame prices)"] h1 e c
  show ?thesis by simp
qed

subsection \<open>A callback that throws\<close>

text \<open>
  Claim C5, as stated, has every remaining callback still called after one has thrown.
  The loops of the handler are plain \<open>forEach\<close> loops inside one \<open>try\<close> block. At this
  input callbacks 1 and 2 are registered for \<open>transactions\<close> and callback 3 for
  \<open>system\<close>, and callback 1 throws: it is the only one called for the frame.
\<close>

theorem throwing_callback_starves_others:
  "subscriptions (run default_config first_throws
     [CallSubscribe transactions 1, CallSubscribe transactions 2, CallSubscribe system 3,
      CallConnect, Open 0] initial)
   = [\<lparr>channel = transactions, callback = 1\<rparr>, \<lparr>channel = transactions, callback = 2\<rparr>,
      \<lparr>channel = system, callback = 3\<rparr>] \<and>
   invoked (run default_config first_throws
     [CallSubscribe transactions 1, CallSubscribe transactions 2, CallSubscribe system 3,
      CallConnect, Open 0, Message 0 (Parsed (tick_frame transactions))] initial)
   = [(1, JNum 7)]"
  by code_simp

lemma until_throw_append:
  "until_throw throws (xs @ ys) =
     (case until_throw throws xs of
        (cs, Some e) \<Rightarrow> (cs, Some e)
      | (cs, None) \<Rightarrow> (case until_throw throws ys of (ds, r) \<Rightarrow> (cs @ ds, r)))"
  by (induction xs) (auto split: prod.splits option.splits)

lemma until_throw_never: "until_throw (\<lambda>c v. False) xs = (xs, None)"
  by (induction xs) auto

lemma until_throw_first:
  assumes "list_all (\<lambda>(c', v'). \<not> throws c' v') before" "throws c v"
  shows "until_throw throws (before @ (c, v) # after) = (before @ [(c, v)], Some (CallbackError c))"
  using assms by (induction before) auto

lemma forEach_call_until_throw:
  "forEach_call throws subs v = until_throw throws (map (\<lambda>e. (callback e, v)) subs)"
  by (induction subs) auto

text \<open>
  The calls that the handler makes for a frame are the calls it makes when nothing
  throws, up to and with the first one that throws.
\<close>

lemma onmessage_try_until_throw:
  "onmessage_try throws subs (Parsed m) =
     (if m = JNull \<or> m = JUndefined then ([], Some TypeError)
      else until_throw throws (fst (onmessage_try (\<lambda>c v. False) subs (Parsed m))))"
proof (cases "m = JNull \<or> m = JUndefined")
  case True
  then show ?thesis by (auto simp: onmessage_try_def)
next
  case False
  show ?thesis
  proof (cases "get_prop m ''type'' = JStr ''pong''")
    case True
    then show ?thesis using False by (simp add: onmessage_try_def)
  next
    case pong: False
    let ?F = "filter (\<lambda>sub. JStr (channel_name (channel sub)) = get_prop m ''channel'') subs"
    let ?R = "if truthy (get_prop m ''channel'')
              then map (\<lambda>e. (callback e, get_prop m ''data'')) ?F else []"
    let ?G = "map (\<lambda>e. (callback e, m)) (filter (\<lambda>sub. channel sub = system) subs)"
    have r: "route_message t subs m = until_throw t ?R" for t
      by (simp add: route_message_def forEach_call_until_throw)
    have g: "global_handler t subs m = until_throw t ?G" for t
      by (simp add: global_handler_def forEach_call_until_throw)
    have plan: "fst (onmessage_try (\<lambda>c v. False) subs (Parsed m)) = ?R @ ?G"
      using False pong by (simp add: onmessage_try_def r g until_throw_never)
    obtain rc rr where R: "until_throw throws ?R = (rc, rr)" by fastforce
    obtain gc gr where G: "until_throw throws ?G = (gc, gr)" by fastforce
    have lhs: "onmessage_try throws subs (Parsed m) =
                 (case rr of Some e \<Rightarrow> (rc, Some e) | None \<Rightarrow> (rc @ gc, gr))"
      using False pong by (simp add: onmessage_try_def r [of throws] g [of throws] R G split: option.splits)
    have rhs: "until_throw throws (?R @ ?G) =
                 (case rr of Some e \<Rightarrow> (rc, Some e) | None \<Rightarrow> (rc @ gc, gr))"
      by (simp add: until_throw_append [of throws ?R ?G] R G split: option.splits)
    have "onmessage_try throws subs (Parsed m) = until_throw throws (?R @ ?G)"
      by (simp only: lhs rhs)
    then show ?thesis using False by (simp only: plan) simp
  qed
qed

text \<open>
  Claim C5, amended: for every inbound frame, if one callback throws during the dispatch,
  the callbacks that come before it in the dispatch have been called, no callback that
  comes after it is called for that frame (neither the remaining ones of the channel nor
  those of \<open>system\<close>), the exception is caught and logged by the handler, and the session
  state is unchanged by the throw. The order of the dispatch is the list of calls that
  the handler makes for the frame when nothing throws.
\<close>

theorem throwing_callback_ends_dispatch:
  assumes plan: "fst (onmessage_try (\<lambda>c v. False) subs (Parsed m)) = before @ (c, v) # after"
    and ok: "list_all (\<lambda>(c', v'). \<not> throws c' v') before"
    and bad: "throws c v"
  shows "socket_onmessage throws subs (Parsed m) s =
          s\<lparr>invoked := invoked s @ before @ [(c, v)],
            console := console s @ [ErrorParse (CallbackError c)]\<rparr>"
proof -
  have "m \<noteq> JNull \<and> m \<noteq> JUndefined"
  proof (rule ccontr)
    assume "\<not> (m \<noteq> JNull \<and> m \<noteq> JUndefined)"
    then have "fst (onmessage_try (\<lambda>c v. False) subs (Parsed m)) = []"
      by (auto simp: onmessage_try_def)
    with plan show False by simp
  qed
  then have "onmessage_try throws subs (Parsed m) =
               until_throw throws (before @ (c, v) # after)"
    using plan by (simp add: onmessage_try_until_throw [of throws])
  then have "onmessage_try throws subs (Parsed m) = (before @ [(c, v)], Some (CallbackError c))"
    by (simp only: until_throw_first [OF ok bad])
  then show ?thesis by (simp add: socket_onmessage_def)
qed

theorem throwing_callback_ends_dispatch_witness:
  "fst (onmessage_try (\<lambda>c v. False)
     [\<lparr>channel = prices, callback = 2\<rparr>, \<lparr>channel = prices, callback = 1\<rparr>,
      \<lparr>channel = prices, callback = 3\<rparr>, \<lparr>channel = system, callback = 4\<rparr>]
     (Parsed (tick_frame prices)))
   = [(2, JNum 7)] @ (1, JNum 7) # [(3, JNum 7), (4, tick_frame prices)] \<and>
   first_throws 2 (JNum 7) = False \<and>
   first_throws 1 (JNum 7) \<and>
   socket_onmessage first_throws
     [\<lparr>channel = prices, callback = 2\<rparr>, \<lparr>channel = prices, callback = 1\<rparr>,
      \<lparr>channel = prices, callback = 3\<rparr>, \<lparr>channel = system, callback = 4\<rparr>]
     (Parsed (tick_frame prices)) initial
   = initial\<lparr>invoked := [(2, JNum 7), (1, JNum 7)],
             console := [ErrorParse (CallbackError 1)]\<rparr>"
proof -
  let ?subs = "[\<lparr>channel = prices, callback = 2\<rparr>, \<lparr>channel = prices, callback = 1\<rparr>,
      \<lparr>channel = prices, callback = 3\<rparr>, \<lparr>channel = system, callback = 4\<rparr>]"
  let ?m = "tick_frame prices"
  have h1: "fst (onmessage_try (\<lambda>c v. False) ?subs (Parsed ?m))
              = [(2, JNum 7)] @ (1, JNum 7) # [(3, JNum 7), (4, ?m)]" by code_simp
  have h2: "list_all (\<lambda>(c', v'). \<not> first_throws c' v') [(2, JNum 7)]" by code_simp
  have h3: "first_throws 1 (JNum 7)" by code_simp
  have n2: "first_throws 2 (JNum 7) = False" by code_simp
  have i: "invoked initial = []" "console initial = []" by (simp_all add: initial_def)
  from throwing_callback_ends_dispatch [where throws = first_throws and s = initial, OF h1 h2 h3]
    h1 h3 n2 i
  show ?thesis by simp
qed

subsection \<open>Routing to the registered callbacks\<close>

text \<open>
  The value that a handler sees as \<open>subscriptions\<close> is the one of the render that made
  its \<open>connect\<close>. After the effect that runs on mount has connected, a callback that
  subscribes is in the registry and not in what the handlers of that socket see: a frame
  on its channel calls nothing. The same holds for a callback that subscribed before the
  effect ran (the effects of the children of the provider run before its own): the
  \<open>connect\<close> of the first render sees the initial \<open>[]\<close>, so the frame calls nothing
  and no subscribe frame is sent when the socket opens.
\<close>

lemma handler_sees_subscriptions_of_connect:
  "subscriptions (run default_config never_throws
     [Mount, Open 0, CallSubscribe prices 1, Message 0 (Parsed (tick_frame prices))] initial)
   = [\<lparr>channel = prices, callback = 1\<rparr>] \<and>
   invoked (run default_config never_throws
     [Mount, Open 0, CallSubscribe prices 1, Message 0 (Parsed (tick_frame prices))] initial)
   = [] \<and>
   subscriptions (run default_config never_throws
     [CallSubscribe prices 1, Mount, Open 0, Message 0 (Parsed (tick_frame prices))] initial)
   = [\<lparr>channel = prices, callback = 1\<rparr>] \<and>
   invoked (run default_config never_throws
     [CallSubscribe prices 1, Mount, Open 0, Message 0 (Parsed (tick_frame prices))] initial)
   = [] \<and>
   sent (run default_config never_throws
     [CallSubscribe prices 1, Mount, Open 0, Message 0 (Parsed (tick_frame prices))] initial)
   = []"
  by code_simp

text \<open>
  Claim C1, as stated, has every callback registered for the channel at the moment of
  dispatch called once. At this input callbacks 1 and 2 are registered for \<open>prices\<close>
  when the socket is made and when the frame arrives (the handler of socket 0 sees
  both), and callback 1 throws: callback 2 is not called.
\<close>

theorem registered_callback_not_invoked:
  "\<lparr>channel = prices, callback = 2\<rparr> \<in>
     set (subscriptions (run default_config first_throws
       [CallSubscribe prices 1, CallSubscribe prices 2, CallConnect, Open 0] initial)) \<and>
   socket_at (run default_config first_throws
       [CallSubscribe prices 1, CallSubscribe prices 2, CallConnect, Open 0] initial) 0 =
     Some \<lparr>readyState = OPEN,
           handler_subscriptions =
             [\<lparr>channel = prices, callback = 1\<rparr>, \<lparr>channel = prices, callback = 2\<rparr>]\<rparr> \<and>
   invoked (run default_config first_throws
       [CallSubscribe prices 1, CallSubscribe prices 2, CallConnect, Open 0,
        Message 0 (Parsed (tick_frame prices))] initial) = [(1, JNum 7)]"
  by code_simp

text \<open>
  Claim C1, amended: for every topic \<open>T\<close> and every callback \<open>cb\<close>, if \<open>cb\<close> is registered
  for \<open>T\<close> at the moment an inbound non-pong envelope with channel \<open>T\<close> is dispatched on
  an open socket whose handler sees the registry as it is at that moment, and no callback
  registered for \<open>T\<close> ahead of \<open>cb\<close> throws, then \<open>cb\<close> is called exactly once with the
  envelope's data field; and the channel routing calls no callback that is not registered
  for \<open>T\<close> at that moment, and passes the data field in every call.
\<close>

theorem routed_exactly_once:
  assumes sock: "socket_at s k = Some sock" "readyState sock = OPEN"
    and snap: "handler_subscriptions sock = subscriptions s"
    and reg: "subscriptions s = before @ \<lparr>channel = T, callback = cb\<rparr> # after"
             "distinct (subscriptions s)"
    and msg: "get_prop m ''type'' \<noteq> JStr ''pong''"
             "get_prop m ''channel'' = JStr (channel_name T)"
    and ok: "list_all (\<lambda>e. channel e = T \<longrightarrow> \<not> throws (callback e) (get_prop m ''data'')) before"
  shows "\<exists>globals.
           invoked (step cfg throws (Message k (Parsed m)) s) =
             invoked s @ fst (route_message throws (subscriptions s) m) @ globals \<and>
           count_list (fst (route_message throws (subscriptions s) m) @ globals)
             (cb, get_prop m ''data'') = 1 \<and>
           (\<forall>c x. (c, x) \<in> set (fst (route_message throws (subscriptions s) m)) \<longrightarrow>
              x = get_prop m ''data'' \<and> \<lparr>channel = T, callback = c\<rparr> \<in> set (subscriptions s))"
proof -
  let ?d = "get_prop m ''data''"
  let ?subs = "subscriptions s"
  let ?routed = "fst (route_message throws ?subs m)"
  have nn: "m \<noteq> JNull" "m \<noteq> JUndefined" using msg(2) by auto
  obtain globals where g: "fst (onmessage_try throws ?subs (Parsed m)) = ?routed @ globals"
    and gm: "\<forall>c x. (c, x) \<in> set globals \<longrightarrow> x = m"
    using onmessage_try_calls [OF msg(1) nn] by blast
  have inv: "invoked (step cfg throws (Message k (Parsed m)) s) = invoked s @ ?routed @ globals"
    using sock snap g by (simp add: step_def browser_message_def socket_onmessage_frame)
  have "(cb, ?d) \<notin> set globals"
    using gm get_prop_neq [OF msg(2), of "''data''"] by blast
  then have "count_list globals (cb, ?d) = 0" by (rule count_list_zero)
  then have count: "count_list (?routed @ globals) (cb, ?d) = 1"
    using route_message_once [where throws = throws, OF reg msg(2) ok] by simp
  have neg: "\<forall>c x. (c, x) \<in> set ?routed \<longrightarrow> x = ?d \<and> \<lparr>channel = T, callback = c\<rparr> \<in> set ?subs"
    using route_message_members [OF msg(2)] by blast
  show ?thesis using inv count neg by blast
qed

theorem routed_exactly_once_witness:
  "socket_at two_listeners 0 =
     Some \<lparr>readyState = OPEN,
           handler_subscriptions =
             [\<lparr>channel = prices, callback = 1\<rparr>, \<lparr>channel = prices, callback = 2\<rparr>]\<rparr> \<and>
   subscriptions two_listeners =
     [\<lparr>channel = prices, callback = 1\<rparr>] @ \<lparr>channel = prices, callback = 2\<rparr> # [] \<and>
   distinct (subscriptions two_listeners) \<and>
   get_prop (tick_frame prices) ''type'' \<noteq> JStr ''pong'' \<and>
   get_prop (tick_frame prices) ''channel'' = JStr (channel_name prices) \<and>
   never_throws 1 (get_prop (tick_frame prices) ''data'') = False \<and>
   count_list
     (drop (length (invoked two_listeners))
        (invoked (step default_config never_throws (Message 0 (Parsed (tick_frame prices)))
           two_listeners)))
     (2, get_prop (tick_frame prices) ''data'') = 1"
proof -
  let ?sock = "\<lparr>readyState = OPEN,
     handler_subscriptions =
       [\<lparr>channel = prices, callback = 1\<rparr>, \<lparr>channel = prices, callback = 2\<rparr>]\<rparr>"
  let ?m = "tick_frame prices"
  have h1: "socket_at two_listeners 0 = Some ?sock" by code_simp
  have h2: "readyState ?sock = OPEN" by simp
  have h3: "handler_subscriptions ?sock = subscriptions two_listeners" by code_simp
  have h4: "subscriptions two_listeners =
              [\<lparr>channel = prices, callback = 1\<rparr>] @ \<lparr>channel = prices, callback = 2\<rparr> # []"
    by code_simp
  have h5: "distinct (subscriptions two_listeners)" by code_simp
  have h6: "get_prop ?m ''type'' \<noteq> JStr ''pong''" by code_simp
  have h7: "get_prop ?m ''channel'' = JStr (channel_name prices)" by code_simp
  have h8: "list_all (\<lambda>e. channel e = prices \<longrightarrow> \<not> never_throws (callback e) (get_prop ?m ''data''))
              [\<lparr>channel = prices, callback = 1\<rparr>]" by code_simp
  have n: "never_throws 1 (get_prop ?m ''data'') = False" by (simp add: never_throws_def)
  from routed_exactly_once [where throws = never_throws and cfg = default_config and m = ?m
      and before = "[\<lparr>channel = prices, callback = 1\<rparr>]" and after = "[]",
      OF h1 h2 h3 h4 h5 h6 h7 h8]
  obtain globals where
    "invoked (step default_config never_throws (Message 0 (Parsed ?m)) two_listeners) =
       invoked two_listeners @ fst (route_message never_throws (subscriptions two_listeners) ?m) @ globals"
    "count_list (fst (route_message never_throws (subscriptions two_listeners) ?m) @ globals)
       (2, get_prop ?m ''data'') = 1"
    by blast
  then have "count_list
     (drop (length (invoked two_listeners))
        (invoked (step default_config never_throws (Message 0 (Parsed ?m)) two_listeners)))
     (2, get_prop ?m ''data'') = 1"
    by simp
  with h1 h4 h5 h6 h7 n show ?thesis by blast
qed

subsection \<open>The registry\<close>

lemma count_list_distinct_member: "distinct xs \<Longrightarrow> x \<in> set xs \<Longrightarrow> count_list xs x = 1"
  by (induction xs) (auto simp: count_list_zero)

lemma current_open_subscriptions [simp]:
  "current_open (s\<lparr>subscriptions := x\<rparr>) = current_open s"
  "socket_readyState (s\<lparr>subscriptions := x\<rparr>) k = socket_readyState s k"
  by (simp_all add: current_open_def socket_readyState_def socket_at_def split: option.splits)

lemma send_open:
  "socketRef s = Some k \<Longrightarrow> socket_readyState s k = Some OPEN \<Longrightarrow>
   current_open s \<and> send frame s = s\<lparr>sent := sent s @ [(k, frame)]\<rparr>"
  by (simp add: send_def current_open_def socket_send_def)

lemma send_subscriptions [simp]: "subscriptions (send frame s) = subscriptions s"
  by (simp add: send_def socket_send_def split: option.splits)

lemma subscribe_subscriptions:
  "subscriptions (fst (subscribe c f s)) =
     (if \<lparr>channel = c, callback = f\<rparr> \<in> set (subscriptions s) then subscriptions s
      else subscriptions s @ [\<lparr>channel = c, callback = f\<rparr>])"
proof -
  have "list_ex (\<lambda>e. channel e = c \<and> callback e = f) (subscriptions s) \<longleftrightarrow>
        \<lparr>channel = c, callback = f\<rparr> \<in> set (subscriptions s)"
    by (auto simp: list_ex_iff Subscription_eq [symmetric])
  then show ?thesis by (simp add: subscribe_def Let_def)
qed

lemma unsubscribe_subscriptions:
  "subscriptions (unsubscribe c f s) =
     filter (\<lambda>e. e \<noteq> \<lparr>channel = c, callback = f\<rparr>) (subscriptions s)"
  by (simp add: unsubscribe_def Let_def Subscription_eq)

lemma distinct_callbacks_on_channel:
  "distinct (subs :: Subscription list) \<Longrightarrow>
   distinct (map callback (filter (\<lambda>e. channel e = c) subs))"
proof (induction subs)
  case Nil
  then show ?case by simp
next
  case (Cons a subs)
  have "callback a \<notin> callback ` set (filter (\<lambda>e. channel e = c) subs)" if "channel a = c"
  proof
    assume "callback a \<in> callback ` set (filter (\<lambda>e. channel e = c) subs)"
    then obtain e where e: "e \<in> set subs" "channel e = c" "callback e = callback a" by auto
    then have "e = \<lparr>channel = c, callback = callback a\<rparr>" "a = \<lparr>channel = c, callback = callback a\<rparr>"
      using that by (simp_all add: Subscription_eq)
    then have "e = a" by simp
    with e Cons.prems show False by simp
  qed
  with Cons show ?case by simp
qed

text \<open>Over a registry without repeated entries the routing loop calls no callback twice.\<close>

lemma route_message_at_most_once:
  assumes "distinct subs"
  shows "count_list (fst (route_message throws subs m)) (c, x) \<le> 1"
proof (cases "\<exists>T. get_prop m ''channel'' = JStr (channel_name T)")
  case True
  then obtain T where T: "get_prop m ''channel'' = JStr (channel_name T)" by blast
  let ?F = "filter (\<lambda>e. channel e = T) subs"
  let ?d = "get_prop m ''data''"
  obtain n where n: "fst (forEach_call throws ?F ?d) = map (\<lambda>e. (callback e, ?d)) (take n ?F)"
    using forEach_call_prefix by blast
  show ?thesis
  proof (cases "x = ?d")
    case True
    have "count_list (fst (route_message throws subs m)) (c, x) =
            count_list (map callback (take n ?F)) c"
      using True n by (simp add: route_message_on_channel [OF T] count_list_map_callback)
    also have "\<dots> = count_list (take n (map callback ?F)) c" by (simp add: take_map)
    also have "\<dots> \<le> count_list (map callback ?F) c" by (rule count_list_take_le)
    also have "\<dots> \<le> 1"
      using assms by (intro count_list_distinct_le distinct_callbacks_on_channel)
    finally show ?thesis .
  next
    case False
    have "(c, x) \<notin> set (fst (route_message throws subs m))"
      using False forEach_call_set [of c x throws ?F ?d]
      by (auto simp: route_message_on_channel [OF T])
    then show ?thesis by (simp add: count_list_zero)
  qed
next
  case False
  then have "filter (\<lambda>sub. JStr (channel_name (channel sub)) = get_prop m ''channel'') subs = []"
    by (auto simp: filter_empty_conv) (metis)
  then show ?thesis by (simp add: route_message_def)
qed

text \<open>
  The registry never holds an entry twice: \<open>subscribe\<close> adds an entry only when it is
  absent, and nothing else adds one.
\<close>

lemma resubscribe_subscriptions [simp]:
  "subscriptions (resubscribe k subs s) = subscriptions s"
  by (induction subs arbitrary: s) (simp_all add: socket_send_def)

lemma connect_subscriptions [simp]: "subscriptions (connect cfg subs s) = subscriptions s"
  by (simp add: connect_def Let_def)

lemma clear_timer_subscriptions [simp]: "subscriptions (clear_timer t s) = subscriptions s"
  by (simp add: clear_timer_def)

lemma disconnect_subscriptions [simp]: "subscriptions (disconnect s) = subscriptions s"
  by (simp add: disconnect_def Let_def socket_close_def set_readyState_def split: option.splits)

lemma handlers_subscriptions [simp]:
  "subscriptions (socket_onopen cfg k subs s) = subscriptions s"
  "subscriptions (socket_onmessage throws subs p s) = subscriptions s"
  "subscriptions (socket_onerror s) = subscriptions s"
  "subscriptions (socket_onclose cfg subs s) = subscriptions s"
  by (simp_all add: socket_onopen_def socket_onmessage_frame socket_onerror_def socket_onclose_def
        Let_def new_timer_def split: option.splits)

lemma browser_subscriptions [simp]:
  "subscriptions (browser_open cfg k s) = subscriptions s"
  "subscriptions (browser_message throws k p s) = subscriptions s"
  "subscriptions (browser_error k s) = subscriptions s"
  "subscriptions (browser_close cfg k s) = subscriptions s"
  "subscriptions (fire cfg t s) = subscriptions s"
  "subscriptions (reconnect subs s) = subscriptions s"
  by (simp_all add: browser_open_def browser_message_def browser_error_def browser_close_def
        fire_def reconnect_def new_timer_def set_readyState_def socket_send_def Let_def
        split: option.splits timer_callback.splits)

lemma step_distinct:
  assumes "distinct (subscriptions s)"
  shows "distinct (subscriptions (step cfg throws ev s))"
  using assms
  by (cases ev) (simp_all add: step_def subscribe_subscriptions unsubscribe_subscriptions)

lemma run_distinct:
  "distinct (subscriptions s) \<Longrightarrow> distinct (subscriptions (run cfg throws evs s))"
  by (induction evs arbitrary: s) (simp_all add: step_distinct)

lemma reachable_distinct: "distinct (subscriptions (run cfg throws evs initial))"
  by (rule run_distinct) (simp add: initial_def)

text \<open>
  Claim C8, as stated, has a callback that subscribed twice to a topic called exactly
  once by an envelope on that topic. At this input callback 1 subscribes twice to
  \<open>system\<close>; the registry holds one entry, the socket made afterwards sees it, and an
  envelope on \<open>system\<close> calls the callback twice: once by the routing, with the data,
  and once by the global handler, with the envelope. The second call is not that of a
  second entry (one call of \<open>subscribe\<close> gives the same two calls): it is the global
  handler's.
\<close>

theorem system_callback_invoked_twice:
  "subscriptions (run default_config never_throws
     [CallSubscribe system 1, CallSubscribe system 1] initial)
   = [\<lparr>channel = system, callback = 1\<rparr>] \<and>
   socket_at (run default_config never_throws
     [CallSubscribe system 1, CallSubscribe system 1, CallConnect, Open 0] initial) 0
   = Some \<lparr>readyState = OPEN, handler_subscriptions = [\<lparr>channel = system, callback = 1\<rparr>]\<rparr> \<and>
   invoked (run default_config never_throws
     [CallSubscribe system 1, CallSubscribe system 1, CallConnect, Open 0,
      Message 0 (Parsed (tick_frame system))] initial)
   = [(1, JNum 7), (1, tick_frame system)] \<and>
   length (invoked (run default_config never_throws
     [CallSubscribe system 1, CallSubscribe system 1, CallConnect, Open 0,
      Message 0 (Parsed (tick_frame system))] initial))
   = 2"
  by code_simp

lemma split_at_member:
  assumes "x \<in> set xs"
  shows "xs = takeWhile (\<lambda>e. e \<noteq> x) xs @ x # tl (dropWhile (\<lambda>e. e \<noteq> x) xs)"
proof -
  have ne: "dropWhile (\<lambda>e. e \<noteq> x) xs \<noteq> []"
    using assms by (simp add: dropWhile_eq_Nil_conv)
  then have "hd (dropWhile (\<lambda>e. e \<noteq> x) xs) = x"
    using hd_dropWhile [of "\<lambda>e. e \<noteq> x" xs] by simp
  then have "dropWhile (\<lambda>e. e \<noteq> x) xs = x # tl (dropWhile (\<lambda>e. e \<noteq> x) xs)"
    using ne by (metis list.collapse)
  then show ?thesis
    using takeWhile_dropWhile_id [of "\<lambda>e. e \<noteq> x" xs] by simp
qed

text \<open>
  Claim C8, amended: registration is idempotent on the registry: for every topic \<open>T\<close> and
  callback \<open>cb\<close>, calling \<open>subscribe(T, cb)\<close> twice leaves the registry as one call does,
  with exactly one \<open>(T, cb)\<close> entry, so a subsequent non-pong envelope on channel \<open>T\<close>,
  dispatched on an open socket whose handler sees that registry, makes the channel routing
  call \<open>cb\<close> at most once, and \<open>cb\<close> is called exactly once with the envelope's data
  field when no callback registered for \<open>T\<close> ahead of \<open>cb\<close> throws (no duplicate dispatch
  by the routing; a callback registered for \<open>system\<close> is called once more, with the whole
  envelope, by the global handler).
\<close>

theorem subscribe_twice_one_entry:
  assumes reg: "distinct (subscriptions s)"
    and later: "subscriptions s' = subscriptions (fst (subscribe T cb (fst (subscribe T cb s))))"
    and sock: "socket_at s' k = Some sock" "readyState sock = OPEN"
    and snap: "handler_subscriptions sock = subscriptions s'"
    and msg: "get_prop m ''type'' \<noteq> JStr ''pong''"
             "get_prop m ''channel'' = JStr (channel_name T)"
  shows "subscriptions (fst (subscribe T cb (fst (subscribe T cb s)))) =
           subscriptions (fst (subscribe T cb s)) \<and>
         count_list (subscriptions (fst (subscribe T cb (fst (subscribe T cb s)))))
           \<lparr>channel = T, callback = cb\<rparr> = 1 \<and>
         (\<exists>routed globals.
            invoked (step cfg throws (Message k (Parsed m)) s') = invoked s' @ routed @ globals \<and>
            routed = fst (route_message throws (handler_subscriptions sock) m) \<and>
            (\<forall>x. count_list routed (cb, x) \<le> 1) \<and>
            (list_all (\<lambda>e. channel e = T \<longrightarrow> \<not> throws (callback e) (get_prop m ''data''))
               (takeWhile (\<lambda>e. e \<noteq> \<lparr>channel = T, callback = cb\<rparr>) (subscriptions s')) \<longrightarrow>
             count_list (routed @ globals) (cb, get_prop m ''data'') = 1))"
proof -
  let ?e = "\<lparr>channel = T, callback = cb\<rparr>"
  let ?d = "get_prop m ''data''"
  let ?subs1 = "subscriptions (fst (subscribe T cb s))"
  let ?subs2 = "subscriptions (fst (subscribe T cb (fst (subscribe T cb s))))"
  let ?routed = "fst (route_message throws (subscriptions s') m)"
  have mem: "?e \<in> set ?subs1" by (simp add: subscribe_subscriptions)
  have d1: "distinct ?subs1" using reg by (simp add: subscribe_subscriptions)
  have same: "?subs2 = ?subs1"
    using mem by (simp add: subscribe_subscriptions [of T cb "fst (subscribe T cb s)"])
  have one: "count_list ?subs2 ?e = 1"
    unfolding same using d1 mem by (rule count_list_distinct_member)
  have d': "distinct (subscriptions s')" and mem': "?e \<in> set (subscriptions s')"
    using d1 mem by (simp_all add: later same)
  have nn: "m \<noteq> JNull" "m \<noteq> JUndefined" using msg(2) by auto
  obtain globals where
    g: "fst (onmessage_try throws (subscriptions s') (Parsed m)) = ?routed @ globals"
    and gm: "\<forall>c x. (c, x) \<in> set globals \<longrightarrow> x = m"
    using onmessage_try_calls [OF msg(1) nn] by blast
  have inv: "invoked (step cfg throws (Message k (Parsed m)) s') = invoked s' @ ?routed @ globals"
    using g by (simp add: message_step [OF sock] socket_onmessage_frame snap)
  have most: "\<forall>x. count_list ?routed (cb, x) \<le> 1"
    using route_message_at_most_once [OF d'] by blast
  have exact: "count_list (?routed @ globals) (cb, ?d) = 1"
    if ok: "list_all (\<lambda>e. channel e = T \<longrightarrow> \<not> throws (callback e) ?d)
              (takeWhile (\<lambda>e. e \<noteq> ?e) (subscriptions s'))"
  proof -
    have sp: "subscriptions s' = takeWhile (\<lambda>e. e \<noteq> ?e) (subscriptions s') @ ?e #
                tl (dropWhile (\<lambda>e. e \<noteq> ?e) (subscriptions s'))"
      using mem' by (rule split_at_member)
    have r: "count_list ?routed (cb, ?d) = 1"
      using route_message_once [where throws = throws, OF sp d' msg(2) ok] .
    have "(cb, ?d) \<notin> set globals"
      using gm get_prop_neq [OF msg(2), of "''data''"] by blast
    then have "count_list globals (cb, ?d) = 0" by (rule count_list_zero)
    then show ?thesis using r by simp
  qed
  show ?thesis
    using same one inv most exact by (simp only: snap) blast
qed

theorem subscribe_twice_one_entry_witness:
  "distinct (subscriptions initial) \<and>
   subscriptions (run default_config never_throws
       [CallSubscribe prices 1, CallSubscribe prices 1, CallConnect, Open 0] initial) =
     subscriptions (fst (subscribe prices 1 (fst (subscribe prices 1 initial)))) \<and>
   socket_at (run default_config never_throws
       [CallSubscribe prices 1, CallSubscribe prices 1, CallConnect, Open 0] initial) 0 =
     Some \<lparr>readyState = OPEN, handler_subscriptions = [\<lparr>channel = prices, callback = 1\<rparr>]\<rparr> \<and>
   get_prop (tick_frame prices) ''type'' \<noteq> JStr ''pong'' \<and>
   get_prop (tick_frame prices) ''channel'' = JStr (channel_name prices) \<and>
   subscriptions (fst (subscribe prices 1 (fst (subscribe prices 1 initial)))) =
     [\<lparr>channel = prices, callback = 1\<rparr>] \<and>
   count_list (subscriptions (fst (subscribe prices 1 (fst (subscribe prices 1 initial)))))
     \<lparr>channel = prices, callback = 1\<rparr> = 1 \<and>
   count_list
     (drop (length (invoked (run default_config never_throws
         [CallSubscribe prices 1, CallSubscribe prices 1, CallConnect, Open 0] initial)))
       (invoked (step default_config never_throws (Message 0 (Parsed (tick_frame prices)))
         (run default_config never_throws
           [CallSubscribe prices 1, CallSubscribe prices 1, CallConnect, Open 0] initial))))
     (1, get_prop (tick_frame prices) ''data'') = 1"
proof -
  let ?s' = "run default_config never_throws
       [CallSubscribe prices 1, CallSubscribe prices 1, CallConnect, Open 0] initial"
  let ?sock = "\<lparr>readyState = OPEN, handler_subscriptions = [\<lparr>channel = prices, callback = 1\<rparr>]\<rparr>"
  let ?m = "tick_frame prices"
  have h1: "distinct (subscriptions initial)" by code_simp
  have h2: "subscriptions ?s' =
              subscriptions (fst (subscribe prices 1 (fst (subscribe prices 1 initial))))"
    by code_simp
  have h3: "socket_at ?s' 0 = Some ?sock" by code_simp
  have h4: "readyState ?sock = OPEN" by simp
  have h5: "handler_subscriptions ?sock = subscriptions ?s'" by code_simp
  have h6: "get_prop ?m ''type'' \<noteq> JStr ''pong''" by code_simp
  have h7: "get_prop ?m ''channel'' = JStr (channel_name prices)" by code_simp
  have r: "subscriptions (fst (subscribe prices 1 initial)) = [\<lparr>channel = prices, callback = 1\<rparr>]"
    by code_simp
  have t: "list_all (\<lambda>e. channel e = prices \<longrightarrow> \<not> never_throws (callback e) (get_prop ?m ''data''))
             (takeWhile (\<lambda>e. e \<noteq> \<lparr>channel = prices, callback = 1\<rparr>) (subscriptions ?s'))"
    by code_simp
  note two = subscribe_twice_one_entry [where throws = never_throws and cfg = default_config
      and m = ?m and cb = 1, OF h1 h2 h3 h4 h5 h6 h7]
  from two have s2: "subscriptions (fst (subscribe prices 1 (fst (subscribe prices 1 initial)))) =
      [\<lparr>channel = prices, callback = 1\<rparr>]"
    using r by simp
  from two have c2: "count_list (subscriptions (fst (subscribe prices 1 (fst (subscribe prices 1 initial)))))
     \<lparr>channel = prices, callback = 1\<rparr> = 1"
    by blast
  from two t obtain routed globals where
    "invoked (step default_config never_throws (Message 0 (Parsed ?m)) ?s') =
       invoked ?s' @ routed @ globals"
    "count_list (routed @ globals) (1, get_prop ?m ''data'') = 1"
    by blast
  then have "count_list
     (drop (length (invoked ?s'))
       (invoked (step default_config never_throws (Message 0 (Parsed ?m)) ?s')))
     (1, get_prop ?m ''data'') = 1"
    by simp
  with h1 h2 h3 h6 h7 s2 c2 show ?thesis by blast
qed

text \<open>
  Claim C10: when the session's socket is open, the function returned by
  \<open>subscribe(T, cb)\<close> and \<open>unsubscribe(T, cb)\<close> do the same: they remove the pair
  \<open>(T, cb)\<close> from the registry and leave every other entry as it is, and they write one
  frame to the socket, the unsubscribe control frame
  \<open>{type: 'unsubscribe', channel: T}\<close>, whatever remains registered for \<open>T\<close>. No other
  field of the state changes.
\<close>

theorem unsubscribe_removes_pair_and_emits:
  assumes "socketRef s = Some k" "socket_readyState s k = Some OPEN"
  shows "unsubscribe T cb s =
           s\<lparr>subscriptions := filter (\<lambda>e. e \<noteq> \<lparr>channel = T, callback = cb\<rparr>) (subscriptions s),
             sent := sent s @
               [(k, JObj [(''type'', JStr ''unsubscribe''), (''channel'', JStr (channel_name T))])]\<rparr> \<and>
         snd (subscribe T cb s0) s = unsubscribe T cb s \<and>
         get_prop (snd (last (sent (unsubscribe T cb s)))) ''type'' = JStr ''unsubscribe'' \<and>
         get_prop (snd (last (sent (unsubscribe T cb s)))) ''channel'' = JStr (channel_name T) \<and>
         fst (last (sent (unsubscribe T cb s))) = k"
proof -
  let ?s1 = "s\<lparr>subscriptions :=
                 filter (\<lambda>e. \<not> (channel e = T \<and> callback e = cb)) (subscriptions s)\<rparr>"
  have "socketRef ?s1 = Some k" "socket_readyState ?s1 k = Some OPEN" using assms by simp_all
  from send_open [OF this]
  have "unsubscribe T cb s = ?s1\<lparr>sent := sent ?s1 @ [(k, unsubscribe_frame T)]\<rparr>"
    by (simp add: unsubscribe_def Let_def)
  then have eq: "unsubscribe T cb s =
           s\<lparr>subscriptions := filter (\<lambda>e. e \<noteq> \<lparr>channel = T, callback = cb\<rparr>) (subscriptions s),
             sent := sent s @
               [(k, JObj [(''type'', JStr ''unsubscribe''), (''channel'', JStr (channel_name T))])]\<rparr>"
    by (simp add: Subscription_eq unsubscribe_frame_def)
  have ret: "snd (subscribe T cb s0) s = unsubscribe T cb s"
    by (simp add: subscribe_def Let_def returned_unsubscribe_def unsubscribe_def)
  have "sent (unsubscribe T cb s) = sent s @
          [(k, JObj [(''type'', JStr ''unsubscribe''), (''channel'', JStr (channel_name T))])]"
    by (simp add: eq)
  then have "last (sent (unsubscribe T cb s)) =
          (k, JObj [(''type'', JStr ''unsubscribe''), (''channel'', JStr (channel_name T))])"
    by simp
  then show ?thesis using eq ret by simp
qed

theorem unsubscribe_removes_pair_and_emits_witness:
  "socketRef two_listeners = Some 0 \<and> socket_readyState two_listeners 0 = Some OPEN \<and>
   subscriptions (unsubscribe prices 1 two_listeners) = [\<lparr>channel = prices, callback = 2\<rparr>] \<and>
   sent (unsubscribe prices 1 two_listeners) =
     sent two_listeners @
       [(0, JObj [(''type'', JStr ''unsubscribe''), (''channel'', JStr ''prices'')])] \<and>
   snd (subscribe prices 1 initial) two_listeners = unsubscribe prices 1 two_listeners"
proof -
  have h1: "socketRef two_listeners = Some 0" by code_simp
  have h2: "socket_readyState two_listeners 0 = Some OPEN" by code_simp
  have r: "subscriptions two_listeners =
             [\<lparr>channel = prices, callback = 1\<rparr>, \<lparr>channel = prices, callback = 2\<rparr>]" by code_simp
  from unsubscribe_removes_pair_and_emits [OF h1 h2, of prices 1 initial] h1 h2 r
  show ?thesis by simp
qed

subsection \<open>connect\<close>

text \<open>
  The guard of \<open>connect\<close>: while the current socket is open, \<open>connect()\<close> opens no
  transport and leaves the state as it is.
\<close>

lemma connect_noop_when_open:
  assumes "current_open s"
  shows "connect cfg subs s = s \<and> step cfg throws CallConnect s = s"
  using assms by (simp add: connect_def step_def)

lemma connect_noop_when_open_example:
  "current_open two_listeners \<and> status two_listeners = connected \<and>
   step default_config never_throws CallConnect two_listeners = two_listeners"
proof -
  have h: "current_open two_listeners" by code_simp
  have c: "status two_listeners = connected" by code_simp
  from connect_noop_when_open [OF h] h c show ?thesis by simp
qed

text \<open>
  Claim C6: \<open>connect()\<close> is a no-op while the session is connected or connecting.
  The guard of \<open>connect\<close> returns only when the current socket is open; a socket that
  is still connecting does not stop it. Evaluated at the input in which the application
  calls \<open>connect()\<close> twice before any socket has opened: after the first call the status
  is \<open>connecting\<close> and one socket exists; the second call makes a second socket and
  puts it in \<open>socketRef\<close>, and socket 0 is left connecting with its handlers in place.
\<close>

theorem connect_while_connecting_opens_second:
  "status (run default_config never_throws [CallConnect] initial) = connecting \<and>
   length (sockets (run default_config never_throws [CallConnect] initial)) = 1 \<and>
   length (sockets (run default_config never_throws [CallConnect, CallConnect] initial)) = 2 \<and>
   socketRef (run default_config never_throws [CallConnect, CallConnect] initial) = Some 1 \<and>
   socket_readyState (run default_config never_throws [CallConnect, CallConnect] initial) 0
     = Some CONNECTING"
  by code_simp

subsection \<open>The reconnection policy\<close>

lemma filter_clear_empty:
  assumes "filter (\<lambda>tm. active tm \<and> is_retry (fires tm)) ts = []"
  shows "filter (\<lambda>tm. active tm \<and> is_retry (fires tm)) (ts[t := (ts ! t)\<lparr>active := False\<rparr>]) = []"
proof -
  have "\<forall>tm \<in> set ts. \<not> (active tm \<and> is_retry (fires tm))"
    using assms by (simp add: filter_empty_conv)
  moreover have "set (ts[t := (ts ! t)\<lparr>active := False\<rparr>]) \<subseteq> insert ((ts ! t)\<lparr>active := False\<rparr>) (set ts)"
    by (rule set_update_subset_insert)
  ultimately have "\<forall>tm \<in> set (ts[t := (ts ! t)\<lparr>active := False\<rparr>]). \<not> (active tm \<and> is_retry (fires tm))"
    by auto
  then show ?thesis by (simp add: filter_empty_conv)
qed

lemma pending_retries_clear:
  "pending_retries s = [] \<Longrightarrow> pending_retries (clear_timer t s) = []"
  by (simp add: pending_retries_def clear_timer_def filter_clear_empty)

lemma retry_timer_idle_clear:
  "retry_timer_idle s \<Longrightarrow> retry_timer_idle (clear_timer t s)"
  by (auto simp: retry_timer_idle_def clear_timer_def timer_at_def nth_list_update
      split: option.splits if_splits)

text \<open>A retry timer that is not to fire does nothing when its turn comes.\<close>

lemma fire_retry_idle: "retry_timer_idle s \<Longrightarrow> fire_retry cfg s = s"
  by (auto simp: retry_timer_idle_def fire_retry_def fire_def split: option.splits)





text \<open>
  The close of the current socket, when the application has not disconnected: while the
  counter is below the maximum the handler counts one more attempt and sets a retry
  timeout for \<open>reconnectInterval\<close>; from the maximum on it sets nothing.
\<close>

lemma current_live_cong:
  "socketRef s' = socketRef s \<Longrightarrow> sockets s' = sockets s \<Longrightarrow> current_live s' = current_live s"
  by (auto simp: current_live_def socket_readyState_def socket_at_def split: option.splits)

lemma retry_timer_idle_cong:
  "reconnectTimerRef s' = reconnectTimerRef s \<Longrightarrow> timers s' = timers s \<Longrightarrow>
   retry_timer_idle s' = retry_timer_idle s"
  by (auto simp: retry_timer_idle_def timer_at_def split: option.splits)

lemma heartbeat_cleared_fields:
  "pending_retries s = [] \<Longrightarrow> pending_retries (heartbeat_cleared s) = []"
  "retry_timer_idle s \<Longrightarrow> retry_timer_idle (heartbeat_cleared s)"
  "reconnectTimerRef (heartbeat_cleared s) = reconnectTimerRef s"
proof -
  show "pending_retries s = [] \<Longrightarrow> pending_retries (heartbeat_cleared s) = []"
    by (simp add: heartbeat_cleared_def pending_retries_clear split: option.splits)
  show "retry_timer_idle s \<Longrightarrow> retry_timer_idle (heartbeat_cleared s)"
    by (simp add: heartbeat_cleared_def retry_timer_idle_clear split: option.splits)
  show "reconnectTimerRef (heartbeat_cleared s) = reconnectTimerRef s"
    by (simp add: heartbeat_cleared_def clear_timer_def split: option.splits)
qed

lemma socket_onclose_fields:
  "status (socket_onclose cfg subs s) = disconnected"
  "isManualDisconnect (socket_onclose cfg subs s) = isManualDisconnect s"
  "socketRef (socket_onclose cfg subs s) = socketRef s"
  "sockets (socket_onclose cfg subs s) = sockets s"
  by (simp_all add: socket_onclose_def Let_def new_timer_def clear_timer_def split: option.splits)

lemma socket_onclose_retry:
  assumes "\<not> isManualDisconnect s" "reconnectAttemptsRef s < maxReconnectAttempts cfg"
  shows "reconnectAttemptsRef (socket_onclose cfg subs s) = reconnectAttemptsRef s + 1"
    and "timers (socket_onclose cfg subs s) =
           timers (heartbeat_cleared s) @
             [\<lparr>fires = RetryConnect subs, delay = reconnectInterval cfg,
               repeats = False, active = True\<rparr>]"
    and "reconnectTimerRef (socket_onclose cfg subs s) = Some (length (timers (heartbeat_cleared s)))"
  using assms
  by (simp_all add: socket_onclose_def Let_def new_timer_def clear_timer_def heartbeat_cleared_def
        split: option.splits)

lemma socket_onclose_stop:
  assumes "isManualDisconnect s \<or> \<not> reconnectAttemptsRef s < maxReconnectAttempts cfg"
  shows "reconnectAttemptsRef (socket_onclose cfg subs s) = reconnectAttemptsRef s"
    and "timers (socket_onclose cfg subs s) = timers (heartbeat_cleared s)"
    and "reconnectTimerRef (socket_onclose cfg subs s) = reconnectTimerRef s"
  using assms
  by (auto simp: socket_onclose_def Let_def new_timer_def clear_timer_def heartbeat_cleared_def
        split: option.splits)

lemma close_current_live:
  assumes start: "episode_start s"
  shows "reconnectAttemptsRef s < maxReconnectAttempts cfg \<Longrightarrow>
           waiting cfg (close_current cfg s) \<and>
           reconnectAttemptsRef (close_current cfg s) = reconnectAttemptsRef s + 1"
    and "\<not> reconnectAttemptsRef s < maxReconnectAttempts cfg \<Longrightarrow>
           given_up (close_current cfg s) \<and> \<not> isManualDisconnect (close_current cfg s) \<and>
           reconnectAttemptsRef (close_current cfg s) = reconnectAttemptsRef s"
proof -
  from start obtain k sock where k: "socketRef s = Some k" "socket_at s k = Some sock"
      "readyState sock \<noteq> CLOSED"
    by (auto simp: episode_start_def current_live_def socket_readyState_def split: option.splits)
  have manual: "\<not> isManualDisconnect s" and pend: "pending_retries s = []"
    and idle: "retry_timer_idle s"
    using start by (simp_all add: episode_start_def)
  define s0 where "s0 = set_readyState k CLOSED s"
  define s' where "s' = socket_onclose cfg (handler_subscriptions sock) s0"
  have klen: "k < length (sockets s)"
    using k(2) by (simp add: socket_at_def split: if_splits)
  have close: "close_current cfg s = s'"
    using k by (simp add: close_current_def browser_close_def s'_def s0_def)
  have s0_fields: "isManualDisconnect s0 = isManualDisconnect s"
      "reconnectAttemptsRef s0 = reconnectAttemptsRef s" "socketRef s0 = Some k"
      "reconnectTimerRef s0 = reconnectTimerRef s"
      "timers s0 = timers s" "socket_readyState s0 k = Some CLOSED"
    using k(1) klen
    by (simp_all add: s0_def set_readyState_def socket_readyState_def socket_at_def)
  have s0_pend: "pending_retries s0 = []"
    using pend s0_fields(5) by (simp add: pending_retries_def)
  have s0_idle: "retry_timer_idle s0"
    using idle retry_timer_idle_cong [OF s0_fields(4,5)] by simp
  have "\<not> current_live s0"
    using s0_fields(3,6) by (simp add: current_live_def)
  moreover have "current_live s' = current_live s0"
    by (rule current_live_cong) (simp_all add: s'_def socket_onclose_fields)
  ultimately have not_live: "\<not> current_live s'" by simp
  have st: "status s' = disconnected" "isManualDisconnect s' = isManualDisconnect s"
    using s0_fields(1) by (simp_all add: s'_def socket_onclose_fields)
  {
    assume lt: "reconnectAttemptsRef s < maxReconnectAttempts cfg"
    have c: "\<not> isManualDisconnect s0" "reconnectAttemptsRef s0 < maxReconnectAttempts cfg"
      using lt manual s0_fields(1,2) by simp_all
    note r = socket_onclose_retry [OF c, of "handler_subscriptions sock", folded s'_def]
    have "waiting cfg s'"
      unfolding waiting_def
    proof (intro conjI exI)
      show "\<not> isManualDisconnect s'" using manual st(2) by simp
      show "\<not> current_live s'" by (rule not_live)
      show "status s' = disconnected" by (rule st(1))
      show "timers s' = timers (heartbeat_cleared s0) @
              [\<lparr>fires = RetryConnect (handler_subscriptions sock), delay = reconnectInterval cfg,
                repeats = False, active = True\<rparr>]"
        by (rule r(2))
      show "filter (\<lambda>tm. active tm \<and> is_retry (fires tm)) (timers (heartbeat_cleared s0)) = []"
        using heartbeat_cleared_fields(1) [OF s0_pend] by (simp add: pending_retries_def)
      show "reconnectTimerRef s' = Some (length (timers (heartbeat_cleared s0)))" by (rule r(3))
    qed
    moreover have "reconnectAttemptsRef s' = reconnectAttemptsRef s + 1"
      using r(1) s0_fields(2) by simp
    ultimately show "waiting cfg (close_current cfg s) \<and>
           reconnectAttemptsRef (close_current cfg s) = reconnectAttemptsRef s + 1"
      by (simp only: close)
  }
  {
    assume ge: "\<not> reconnectAttemptsRef s < maxReconnectAttempts cfg"
    have c: "isManualDisconnect s0 \<or> \<not> reconnectAttemptsRef s0 < maxReconnectAttempts cfg"
      using ge s0_fields(2) by simp
    note r = socket_onclose_stop [OF c, of "handler_subscriptions sock", folded s'_def]
    have "pending_retries s' = []"
      using heartbeat_cleared_fields(1) [OF s0_pend] r(2) by (simp add: pending_retries_def)
    moreover have "retry_timer_idle s'"
    proof -
      have "retry_timer_idle s' = retry_timer_idle (heartbeat_cleared s0)"
        by (rule retry_timer_idle_cong) (simp_all add: r heartbeat_cleared_fields)
      then show ?thesis using heartbeat_cleared_fields(2) [OF s0_idle] by simp
    qed
    ultimately have "given_up s'"
      unfolding given_up_def using not_live st(1) by simp
    then show "given_up (close_current cfg s) \<and> \<not> isManualDisconnect (close_current cfg s) \<and>
           reconnectAttemptsRef (close_current cfg s) = reconnectAttemptsRef s"
      using manual st(2) r(1) s0_fields(2) by (simp only: close) simp
  }
qed

text \<open>
  The retry timeout fires: it calls \<open>connect\<close>, which makes the next socket, and a new
  episode of the same run starts with the counter as it was.
\<close>

lemma fire_retry_waiting:
  assumes "url_valid cfg" "waiting cfg s"
  shows "episode_start (fire_retry cfg s) \<and>
         reconnectAttemptsRef (fire_retry cfg s) = reconnectAttemptsRef s"
proof -
  from assms(2) obtain ts subs where
    w: "\<not> isManualDisconnect s" "\<not> current_live s"
      "timers s = ts @ [\<lparr>fires = RetryConnect subs, delay = reconnectInterval cfg,
                         repeats = False, active = True\<rparr>]"
      "filter (\<lambda>tm. active tm \<and> is_retry (fires tm)) ts = []"
      "reconnectTimerRef s = Some (length ts)"
    by (auto simp: waiting_def)
  let ?tm = "\<lparr>fires = RetryConnect subs, delay = reconnectInterval cfg,
              repeats = False, active = True\<rparr>"
  let ?s1 = "clear_timer (length ts) s"
  have at: "timer_at s (length ts) = Some ?tm"
    using w(3) by (simp add: timer_at_def)
  have fire: "fire_retry cfg s = connect cfg subs ?s1"
    using w(5) at by (simp add: fire_retry_def fire_def)
  have t1: "timers ?s1 = ts @ [?tm\<lparr>active := False\<rparr>]"
    using w(3) by (simp add: clear_timer_def)
  have not_open: "\<not> current_open ?s1"
    using w(2)
    by (auto simp: current_live_def current_open_def clear_timer_def socket_readyState_def
        socket_at_def split: option.splits if_splits)
  let ?s2 = "?s1\<lparr>status := connecting, isManualDisconnect := False\<rparr>"
  let ?s3 = "?s2\<lparr>sockets := sockets ?s2 @ [\<lparr>readyState = CONNECTING, handler_subscriptions = subs\<rparr>],
                 socketRef := Some (length (sockets ?s2))\<rparr>"
  have con: "connect cfg subs ?s1 = ?s3"
    using not_open assms(1) by (simp add: connect_def Let_def)
  have t3: "timers ?s3 = ts @ [?tm\<lparr>active := False\<rparr>]" using t1 by simp
  have "episode_start ?s3"
    unfolding episode_start_def
  proof (intro conjI)
    show "\<not> isManualDisconnect ?s3" by simp
    show "current_live ?s3"
      by (simp add: current_live_def socket_readyState_def socket_at_def)
    show "pending_retries ?s3 = []"
      unfolding pending_retries_def t3 using w(4) by simp
    show "retry_timer_idle ?s3"
      using w(3,5) by (simp add: retry_timer_idle_def timer_at_def clear_timer_def)
  qed
  moreover have "reconnectAttemptsRef ?s3 = reconnectAttemptsRef s"
    by (simp add: clear_timer_def)
  ultimately show ?thesis by (simp only: fire con)
qed

text \<open>One round, from the start of an episode or from a session that waits for a retry.\<close>

lemma fail_round_below:
  assumes "url_valid cfg" "episode_start s \<or> waiting cfg s"
    and "reconnectAttemptsRef s < maxReconnectAttempts cfg"
  shows "waiting cfg (fail_round cfg s) \<and>
         reconnectAttemptsRef (fail_round cfg s) = reconnectAttemptsRef s + 1"
proof -
  have "episode_start (fire_retry cfg s) \<and>
        reconnectAttemptsRef (fire_retry cfg s) = reconnectAttemptsRef s"
    using assms(1,2) fire_retry_waiting fire_retry_idle [of s cfg]
    by (auto simp: episode_start_def)
  then show ?thesis
    using close_current_live(1) [of "fire_retry cfg s" cfg] assms(3)
    by (simp add: fail_round_def)
qed


lemma fail_run_below:
  assumes "url_valid cfg"
  shows "episode_start s \<or> waiting cfg s \<Longrightarrow> 1 \<le> n \<Longrightarrow>
         reconnectAttemptsRef s + int n \<le> maxReconnectAttempts cfg \<Longrightarrow>
         waiting cfg (fail_run cfg n s) \<and>
         reconnectAttemptsRef (fail_run cfg n s) = reconnectAttemptsRef s + int n"
proof (induction n arbitrary: s)
  case 0
  then show ?case by simp
next
  case (Suc n)
  have lt: "reconnectAttemptsRef s < maxReconnectAttempts cfg" using Suc.prems(3) by simp
  note r = fail_round_below [OF assms Suc.prems(1) lt]
  show ?case
  proof (cases n)
    case 0
    then show ?thesis using r by simp
  next
    case (Suc m)
    have "waiting cfg (fail_run cfg n (fail_round cfg s)) \<and>
          reconnectAttemptsRef (fail_run cfg n (fail_round cfg s)) =
            reconnectAttemptsRef (fail_round cfg s) + int n"
      using r Suc Suc.prems(3) by (intro Suc.IH) simp_all
    then show ?thesis using r by simp
  qed
qed


lemma waiting_pending:
  assumes "waiting cfg s"
  shows "status s = disconnected \<and>
         (\<exists>subs. pending_retries s =
            [\<lparr>fires = RetryConnect subs, delay = reconnectInterval cfg,
              repeats = False, active = True\<rparr>])"
  using assms by (auto simp: waiting_def pending_retries_def)




text \<open>The fields of the state after \<open>onopen\<close>.\<close>

lemma resubscribe_sent: "\<exists>x. resubscribe k subs s = s\<lparr>sent := x\<rparr>"
proof (induction subs arbitrary: s)
  case Nil
  have "s = s\<lparr>sent := sent s\<rparr>" by simp
  then show ?case by (simp only: resubscribe.simps) (rule exI)
next
  case (Cons sub rest)
  define y where "y = (if socket_readyState s k = Some OPEN
                        then sent s @ [(k, subscribe_frame (channel sub))] else sent s)"
  have y: "socket_send k (subscribe_frame (channel sub)) s = s\<lparr>sent := y\<rparr>"
    by (simp add: socket_send_def y_def)
  obtain x where "resubscribe k rest (s\<lparr>sent := y\<rparr>) = s\<lparr>sent := y\<rparr>\<lparr>sent := x\<rparr>"
    using Cons.IH by blast
  then have "resubscribe k (sub # rest) s = s\<lparr>sent := x\<rparr>" by (simp add: y)
  then show ?case by (rule exI)
qed

lemma socket_onopen_fields:
  "reconnectAttemptsRef (socket_onopen cfg k subs s) = 0"
  "status (socket_onopen cfg k subs s) = connected"
  "isManualDisconnect (socket_onopen cfg k subs s) = isManualDisconnect s"
  "socketRef (socket_onopen cfg k subs s) = socketRef s"
  "sockets (socket_onopen cfg k subs s) = sockets s"
  "reconnectTimerRef (socket_onopen cfg k subs s) = reconnectTimerRef s"
  "timers (socket_onopen cfg k subs s) =
     timers s @ (if heartbeatInterval cfg > 0
                 then [\<lparr>fires = HeartbeatTick k, delay = heartbeatInterval cfg,
                        repeats = True, active = True\<rparr>]
                 else [])"
proof -
  let ?s1 = "s\<lparr>console := console s @ [LogConnected], status := connected,
               reconnectAttemptsRef := 0\<rparr>"
  let ?s2 = "if heartbeatInterval cfg > 0
             then (case new_timer (HeartbeatTick k) (heartbeatInterval cfg) True ?s1 of
                     (h, s') \<Rightarrow> s'\<lparr>heartbeatTimerRef := Some h\<rparr>)
             else ?s1"
  obtain x where x: "socket_onopen cfg k subs s = ?s2\<lparr>sent := x\<rparr>"
    using resubscribe_sent [of k subs ?s2] by (auto simp: socket_onopen_def Let_def)
  show "reconnectAttemptsRef (socket_onopen cfg k subs s) = 0"
    by (simp add: x new_timer_def)
  show "status (socket_onopen cfg k subs s) = connected"
    by (simp add: x new_timer_def)
  show "isManualDisconnect (socket_onopen cfg k subs s) = isManualDisconnect s"
    by (simp add: x new_timer_def)
  show "socketRef (socket_onopen cfg k subs s) = socketRef s"
    by (simp add: x new_timer_def)
  show "sockets (socket_onopen cfg k subs s) = sockets s"
    by (simp add: x new_timer_def)
  show "reconnectTimerRef (socket_onopen cfg k subs s) = reconnectTimerRef s"
    by (simp add: x new_timer_def)
  show "timers (socket_onopen cfg k subs s) =
     timers s @ (if heartbeatInterval cfg > 0
                 then [\<lparr>fires = HeartbeatTick k, delay = heartbeatInterval cfg,
                        repeats = True, active = True\<rparr>]
                 else [])"
    by (simp add: x new_timer_def)
qed

lemma browser_open_starts_episode:
  assumes "socketRef s = Some k" "socket_readyState s k = Some CONNECTING"
    and "\<not> isManualDisconnect s" "pending_retries s = []" "retry_timer_idle s"
  shows "episode_start (browser_open cfg k s)"
proof -
  from assms(2) obtain sock where sock: "socket_at s k = Some sock" "readyState sock = CONNECTING"
    by (auto simp: socket_readyState_def)
  define s0 where "s0 = set_readyState k OPEN s"
  define s' where "s' = socket_onopen cfg k (handler_subscriptions sock) s0"
  have klen: "k < length (sockets s)"
    using sock(1) by (simp add: socket_at_def split: if_splits)
  have opened: "browser_open cfg k s = s'"
    using sock by (simp add: browser_open_def s'_def s0_def)
  have s0_fields: "isManualDisconnect s0 = isManualDisconnect s" "socketRef s0 = Some k"
      "reconnectTimerRef s0 = reconnectTimerRef s" "timers s0 = timers s"
      "socket_readyState s0 k = Some OPEN"
    using assms(1) klen
    by (simp_all add: s0_def set_readyState_def socket_readyState_def socket_at_def)
  note f = socket_onopen_fields [of cfg k "handler_subscriptions sock" s0, folded s'_def]
  have "current_live s0" using s0_fields(2,5) by (simp add: current_live_def)
  moreover have "current_live s' = current_live s0"
    by (rule current_live_cong) (simp_all add: f)
  ultimately have live: "current_live s'" by simp
  have pend: "pending_retries s' = []"
    using assms(4) by (simp add: pending_retries_def f s0_fields)
  have idle: "retry_timer_idle s'"
    using assms(5)
    by (auto simp: retry_timer_idle_def timer_at_def f s0_fields nth_append split: option.splits if_splits)
  show ?thesis
    unfolding opened episode_start_def using assms(3) live pend idle by (simp add: f s0_fields)
qed

text \<open>
  Claim C3: every socket open event sets the status to \<open>connected\<close> and the reconnect
  counter to 0, whatever the counter was (the handler \<open>onopen\<close> does so in every
  state), so that the closes which follow are granted the whole of
  \<open>maxReconnectAttempts\<close> retries again: when the socket that opens is the current one
  of a session that has not been disconnected and has no retry to fire, each of the next
  \<open>maxReconnectAttempts\<close> closes in a row sets a retry after \<open>reconnectInterval\<close>.
\<close>

theorem open_resets_retry_budget:
  assumes "url_valid cfg" "socketRef s = Some k" "socket_readyState s k = Some CONNECTING"
    and "\<not> isManualDisconnect s" "pending_retries s = []" "retry_timer_idle s"
  shows "reconnectAttemptsRef (socket_onopen cfg j subs s0) = 0 \<and>
         status (socket_onopen cfg j subs s0) = connected \<and>
         reconnectAttemptsRef (step cfg throws (Open k) s) = 0 \<and>
         status (step cfg throws (Open k) s) = connected \<and>
         (\<forall>n. 1 \<le> n \<and> int n \<le> maxReconnectAttempts cfg \<longrightarrow>
            reconnectAttemptsRef (fail_run cfg n (step cfg throws (Open k) s)) = int n \<and>
            (\<exists>subs. pending_retries (fail_run cfg n (step cfg throws (Open k) s)) =
               [\<lparr>fires = RetryConnect subs, delay = reconnectInterval cfg,
                 repeats = False, active = True\<rparr>]))"
proof -
  let ?s' = "step cfg throws (Open k) s"
  from assms(3) obtain sock where sock: "socket_at s k = Some sock" "readyState sock = CONNECTING"
    by (auto simp: socket_readyState_def)
  have opened: "?s' = socket_onopen cfg k (handler_subscriptions sock) (set_readyState k OPEN s)"
    using sock by (simp add: step_def browser_open_def)
  have zero: "reconnectAttemptsRef ?s' = 0" and conn: "status ?s' = connected"
    by (simp_all add: opened socket_onopen_fields)
  have start: "episode_start ?s'"
    using browser_open_starts_episode [OF assms(2-6), of cfg] by (simp add: step_def)
  have budget: "reconnectAttemptsRef (fail_run cfg n ?s') = int n \<and>
        (\<exists>subs. pending_retries (fail_run cfg n ?s') =
               [\<lparr>fires = RetryConnect subs, delay = reconnectInterval cfg,
                 repeats = False, active = True\<rparr>])"
    if "1 \<le> n \<and> int n \<le> maxReconnectAttempts cfg" for n
  proof -
    have "waiting cfg (fail_run cfg n ?s') \<and>
        reconnectAttemptsRef (fail_run cfg n ?s') = reconnectAttemptsRef ?s' + int n"
      using fail_run_below [OF assms(1), of ?s' n] start that zero by simp
    then show ?thesis using zero waiting_pending by auto
  qed
  have handler: "reconnectAttemptsRef (socket_onopen cfg j subs s0) = 0"
      "status (socket_onopen cfg j subs s0) = connected"
    by (simp_all add: socket_onopen_fields)
  show ?thesis using handler zero conn budget by blast
qed

theorem open_resets_retry_budget_witness:
  "url_valid quick_config \<and>
   socketRef (run quick_config never_throws [Mount, Close 0, Fire 0, Close 1, Fire 1] initial)
     = Some 2 \<and>
   socket_readyState (run quick_config never_throws [Mount, Close 0, Fire 0, Close 1, Fire 1] initial) 2
     = Some CONNECTING \<and>
   reconnectAttemptsRef (run quick_config never_throws [Mount, Close 0, Fire 0, Close 1, Fire 1] initial)
     = 2 \<and>
   maxReconnectAttempts quick_config = 2 \<and>
   reconnectAttemptsRef (step quick_config never_throws (Open 2)
     (run quick_config never_throws [Mount, Close 0, Fire 0, Close 1, Fire 1] initial)) = 0 \<and>
   reconnectAttemptsRef (fail_run quick_config 2 (step quick_config never_throws (Open 2)
     (run quick_config never_throws [Mount, Close 0, Fire 0, Close 1, Fire 1] initial))) = 2"
proof -
  let ?s = "run quick_config never_throws [Mount, Close 0, Fire 0, Close 1, Fire 1] initial"
  have h1: "url_valid quick_config" by code_simp
  have h2: "socketRef ?s = Some 2" by code_simp
  have h3: "socket_readyState ?s 2 = Some CONNECTING" by code_simp
  have h4: "\<not> isManualDisconnect ?s" by code_simp
  have h5: "pending_retries ?s = []" by code_simp
  have h6: "retry_timer_idle ?s" by code_simp
  have a: "reconnectAttemptsRef ?s = 2" by code_simp
  have m: "maxReconnectAttempts quick_config = 2" by code_simp
  note reset = open_resets_retry_budget [OF h1 h2 h3 h4 h5 h6, where throws = never_throws]
  from reset have zero: "reconnectAttemptsRef (step quick_config never_throws (Open 2) ?s) = 0"
    by blast
  from reset have
    "1 \<le> (2::nat) \<and> int 2 \<le> maxReconnectAttempts quick_config \<longrightarrow>
     reconnectAttemptsRef (fail_run quick_config 2 (step quick_config never_throws (Open 2) ?s))
       = int 2"
    by blast
  then have two:
    "reconnectAttemptsRef (fail_run quick_config 2 (step quick_config never_throws (Open 2) ?s)) = 2"
    using m by simp
  from h1 h2 h3 a m zero two show ?thesis by blast
qed

subsection \<open>disconnect and the timers\<close>

text \<open>\<open>disconnect\<close> stops the two timers whose handles are in the refs.\<close>

lemma disconnect_clears_held_timers:
  "heartbeatTimerRef s = Some h \<Longrightarrow> h < length (timers s) \<Longrightarrow>
     \<not> active (timers (disconnect s) ! h)"
  "reconnectTimerRef s = Some r \<Longrightarrow> r < length (timers s) \<Longrightarrow>
     \<not> active (timers (disconnect s) ! r)"
  by (auto simp: disconnect_def Let_def clear_timer_def socket_close_def set_readyState_def
        nth_list_update split: option.splits)

text \<open>
  Claim C4: after a manual \<open>disconnect()\<close> no ping frame is emitted and no automatic
  \<open>connect()\<close> fires. The code clears the timers held in \<open>heartbeatTimerRef\<close> and
  \<open>reconnectTimerRef\<close> only; each ref holds the timer made last, and the timeout made
  by \<open>reconnect()\<close> is held nowhere. Evaluated at three inputs. In the first two the
  application calls \<open>connect()\<close> once more while the socket made on mount is still
  connecting, so that two sockets exist. In the first both sockets open: the heartbeat
  of socket 0 is no longer held in the ref, \<open>disconnect()\<close> closes socket 1 and leaves
  socket 0 open, and the timer writes a ping on socket 0 afterwards. In the second both
  sockets close: the retry timeout of socket 0 is no longer held in the ref, and after
  \<open>disconnect()\<close> it fires, calls \<open>connect()\<close> and a third socket is made. In the third
  there is one socket: the application calls \<open>reconnect()\<close> and then \<open>disconnect()\<close>
  before the 100 ms have passed; the timeout of \<open>reconnect()\<close> fires after the
  \<open>disconnect()\<close>, calls \<open>connect()\<close> and a second socket is made.
\<close>

theorem timers_fire_after_disconnect:
  "sent (run default_config never_throws
     [Mount, CallConnect, Open 0, Open 1, CallDisconnect] initial) = [] \<and>
   status (run default_config never_throws
     [Mount, CallConnect, Open 0, Open 1, CallDisconnect] initial) = disconnected \<and>
   sent (run default_config never_throws
     [Mount, CallConnect, Open 0, Open 1, CallDisconnect, Fire 0] initial) = [(0, ping_frame)] \<and>
   length (sockets (run default_config never_throws
     [Mount, CallConnect, Close 0, Close 1, CallDisconnect] initial)) = 2 \<and>
   isManualDisconnect (run default_config never_throws
     [Mount, CallConnect, Close 0, Close 1, CallDisconnect] initial) \<and>
   length (sockets (run default_config never_throws
     [Mount, CallConnect, Close 0, Close 1, CallDisconnect, Fire 0] initial)) = 3 \<and>
   status (run default_config never_throws
     [Mount, CallConnect, Close 0, Close 1, CallDisconnect, Fire 0] initial) = connecting \<and>
   length (sockets (run default_config never_throws
     [Mount, Open 0, CallReconnect, CallDisconnect] initial)) = 1 \<and>
   status (run default_config never_throws
     [Mount, Open 0, CallReconnect, CallDisconnect] initial) = disconnected \<and>
   length (sockets (run default_config never_throws
     [Mount, Open 0, CallReconnect, CallDisconnect, Fire 1] initial)) = 2 \<and>
   status (run default_config never_throws
     [Mount, Open 0, CallReconnect, CallDisconnect, Fire 1] initial) = connecting"
  by code_simp

end
